theory Spec2Isabelle
  imports Main
begin

section \<open>The orchestrator of pydamage: \<open>pydamage_analyze\<close> (src/pydamage/main.py)\<close>

text \<open>
  The only source file is \<^verbatim>\<open>main.py\<close>: the function \<^verbatim>\<open>pydamage_analyze\<close>. Everything it
  calls (\<^verbatim>\<open>utils.makedir\<close>, \<^verbatim>\<open>utils.prepare_bam\<close>, \<^verbatim>\<open>damage.test_damage\<close>, \<^verbatim>\<open>damageplot\<close>,
  \<^verbatim>\<open>utils.pandas_processing\<close>, \<^verbatim>\<open>prepare_data\<close>, \<^verbatim>\<open>glm_predict\<close>, \<^verbatim>\<open>glm_model_params\<close>,
  \<^verbatim>\<open>utils.df_to_csv\<close>) lives in modules that are not part of the sources, so these are
  parameters of the model, collected in the record \<open>env\<close>. Each of them may raise, so
  each returns a value of \<open>error + 'a\<close>.

  The function is embedded as a function from the environment, the arguments and the
  order in which the pool workers finish their tasks to the trace of effects (calls of
  the collaborators, prints, warnings, pools opened and closed) and the outcome: the
  exception that leaves the function, or the data frame it returns.

  Left out: \<^verbatim>\<open>tqdm\<close>, which only draws a progress bar around the iterator it is given; a
  warning filter that turns \<^verbatim>\<open>warnings.warn\<close> into an exception; and changes in place of
  an argument by a collaborator (a collaborator is a function of its arguments, and
  the frame passed to \<^verbatim>\<open>df_to_csv\<close> is the frame returned).
\<close>

subsection \<open>Values\<close>

datatype error =
    ValueError string    \<comment> \<open>raised by \<^verbatim>\<open>multiprocessing.Pool\<close> for a size below 1\<close>
  | Raised string        \<comment> \<open>any exception of a collaborator\<close>
  | Blocked              \<comment> \<open>no exception: the parent waits for a result that never comes\<close>

text \<open>
  What \<^verbatim>\<open>damage.test_damage\<close> hands back is tested with \<^verbatim>\<open>if i\<close>, Python's truth value:
  \<^verbatim>\<open>None\<close>, \<^verbatim>\<open>False\<close> and the empty dictionary are false, a dictionary with an entry is true.
\<close>

datatype 'v pyval = PyNone | PyBool bool | PyDict "(string \<times> 'v) list"

fun truthy :: "'v pyval \<Rightarrow> bool" where
  "truthy PyNone = False"
| "truthy (PyBool b) = b"
| "truthy (PyDict d) = (d \<noteq> [])"

text \<open>A data frame is the list of its rows in order, each with its index label.\<close>

type_synonym 'r frame = "(string \<times> 'r) list"

text \<open>
  \<^verbatim>\<open>df_glm.merge(df_pydamage, left_index=True, right_index=True)\<close>: pandas joins on the
  index with \<^verbatim>\<open>how="inner"\<close> (the default; no \<^verbatim>\<open>validate=\<close> is given): one row for every
  pair of a left row and a right row with the same label, in the order of the left
  frame; a row whose label the other frame lacks is left out.
\<close>

definition merge :: "'g frame \<Rightarrow> 'r frame \<Rightarrow> ('g \<times> 'r) frame" where
  "merge left right =
     concat (map (\<lambda>(k, l). map (\<lambda>(k', r). (k, (l, r))) (filter (\<lambda>(k', r). k' = k) right)) left)"

subsection \<open>Arguments and collaborators\<close>

record args =
  bam :: string
  wlen :: int
  show_al :: bool
  process :: int
  outdir :: string
  plot :: bool
  verbose :: bool
  force :: bool
  group :: bool
  decimals :: int

text \<open>The defaults of the signature (lines 39 to 50); \<^verbatim>\<open>bam\<close> has none.\<close>

definition default_args :: "string \<Rightarrow> args" where
  "default_args b =
     \<lparr>bam = b, wlen = 30, show_al = False, process = 1, outdir = [], plot = False,
      verbose = False, force = False, group = False, decimals = - 1\<rparr>"

text \<open>
  The collaborators. Keyword arguments of \<^verbatim>\<open>makedir\<close> are passed as the list of those
  given at the call, since its defaults are not in the sources. \<^verbatim>\<open>test_damage\<close> takes
  \<^verbatim>\<open>ref\<close> (\<open>None\<close> in grouped mode), \<^verbatim>\<open>bam\<close>, \<^verbatim>\<open>mode\<close>, \<^verbatim>\<open>wlen\<close>, \<^verbatim>\<open>show_al\<close>, \<^verbatim>\<open>process\<close>
  and \<^verbatim>\<open>verbose\<close>. \<^verbatim>\<open>df_to_csv\<close> reports, besides its outcome, the tables it handed to the
  external CSV writer, each with the directory.
\<close>

record ('v, 'r, 'p, 'g, 'm) env =
  version :: string
  makedir :: "string \<Rightarrow> (string \<times> bool) list \<Rightarrow> error + unit"
  prepare_bam :: "string \<Rightarrow> error + (string list \<times> string)"
  test_damage ::
    "string option \<Rightarrow> string \<Rightarrow> string \<Rightarrow> int \<Rightarrow> bool \<Rightarrow> int \<Rightarrow> bool \<Rightarrow> error + 'v pyval"
  damageplot :: "'v pyval \<Rightarrow> string \<Rightarrow> int \<Rightarrow> error + unit"
  pandas_processing :: "'v pyval list \<Rightarrow> int \<Rightarrow> error + 'r frame"
  prepare_data :: "'r frame \<Rightarrow> error + 'p"
  glm_model_params :: 'm
  glm_predict :: "'p \<Rightarrow> 'm \<Rightarrow> error + 'g frame"
  df_to_csv ::
    "('g \<times> 'r) frame \<Rightarrow> string \<Rightarrow> int \<Rightarrow> (('g \<times> 'r) frame \<times> string) list \<times> (error + unit)"

subsection \<open>Effects\<close>

datatype message =
    Version string     \<comment> \<open>\<^verbatim>\<open>Pydamage version ...\<close>\<close>
  | Estimating         \<comment> \<open>\<^verbatim>\<open>Estimating and testing Damage\<close>\<close>
  | Analyzed nat       \<comment> \<open>\<^verbatim>\<open>n contig(s) successfully analyzed by Pydamage\<close>\<close>
  | Plots              \<comment> \<open>\<^verbatim>\<open>Generating Pydamage plots\<close>\<close>

datatype ('v, 'r, 'p, 'g) event =
    Print message
  | Makedir string "(string \<times> bool) list"
  | PrepareBam string
  | PoolOpen int
  | PoolClose
  | TestDamage "string option"
  | Warn string string
  | Damageplot "'v pyval" string int
  | PandasProcessing "'v pyval list" int
  | PrepareData "'r frame"
  | GlmPredict 'p
  | DfToCsv "('g \<times> 'r) frame" string int
  | ToCsv "('g \<times> 'r) frame" string

text \<open>
  A computation yields its trace and its outcome. \<open>and_then\<close> is sequencing: an
  exception ends the computation with the trace so far.
\<close>

definition and_then ::
  "'e list \<times> (error + 'a) \<Rightarrow> ('a \<Rightarrow> 'e list \<times> (error + 'b)) \<Rightarrow> 'e list \<times> (error + 'b)" where
  "and_then m f =
     (case m of
        (t, Inl e) \<Rightarrow> (t, Inl e)
      | (t, Inr x) \<Rightarrow> (case f x of (t', r) \<Rightarrow> (t @ t', r)))"

definition ret :: "'a \<Rightarrow> 'e list \<times> (error + 'a)" where
  "ret x = ([], Inr x)"

definition emit :: "'e \<Rightarrow> 'e list \<times> (error + unit)" where
  "emit ev = ([ev], Inr ())"

definition call :: "'e \<Rightarrow> error + 'a \<Rightarrow> 'e list \<times> (error + 'a)" where
  "call ev r = ([ev], r)"

subsection \<open>The worker pool\<close>

text \<open>
  \<^verbatim>\<open>list(p.imap(f, xs))\<close>: the workers finish the tasks in some order, the schedule (a
  list of task numbers); \<^verbatim>\<open>imap\<close> yields the results in the order of \<^verbatim>\<open>xs\<close>, and raises
  the exception of a task when its turn comes. \<open>await\<close> is the parent reading the
  results in order, given the tasks finished so far: \<open>None\<close> when the next result is
  still missing.
\<close>

fun await :: "(nat \<Rightarrow> error + 'y) \<Rightarrow> nat list \<Rightarrow> nat list \<Rightarrow> (error + 'y list) option" where
  "await task fin [] = Some (Inr [])"
| "await task fin (i # todo) =
     (if i \<in> set fin then
        (case task i of
           Inl e \<Rightarrow> Some (Inl e)
         | Inr v \<Rightarrow>
             (case await task fin todo of
                None \<Rightarrow> None
              | Some (Inl e) \<Rightarrow> Some (Inl e)
              | Some (Inr vs) \<Rightarrow> Some (Inr (v # vs))))
      else None)"

text \<open>
  \<open>imap_run\<close> lets the tasks finish one by one until the parent has its verdict; it
  returns the tasks that ran, in the order they finished, and the verdict. A schedule
  that ends while the parent still waits leaves it blocked.
\<close>

fun imap_run ::
  "(nat \<Rightarrow> error + 'y) \<Rightarrow> nat \<Rightarrow> nat list \<Rightarrow> nat list \<Rightarrow> nat list \<times> (error + 'y list)" where
  "imap_run task n [] fin =
     (case await task fin [0..<n] of Some r \<Rightarrow> ([], r) | None \<Rightarrow> ([], Inl Blocked))"
| "imap_run task n (j # sched) fin =
     (case await task fin [0..<n] of
        Some r \<Rightarrow> ([], r)
      | None \<Rightarrow> (case imap_run task n sched (j # fin) of (js, r) \<Rightarrow> (j # js, r)))"

text \<open>
  \<^verbatim>\<open>with multiprocessing.Pool(proc) as p: list(p.imap(f, xs))\<close>. The constructor raises
  \<^verbatim>\<open>ValueError\<close> when \<^verbatim>\<open>proc\<close> is below 1; leaving the \<^verbatim>\<open>with\<close> block closes the pool, also on
  an exception. \<open>ev\<close> is the event a task leaves in the trace. Entries of the schedule
  that number no task of \<open>xs\<close> are skipped.
\<close>

definition pool ::
  "int \<Rightarrow> ('x \<Rightarrow> error + 'y) \<Rightarrow> ('x \<Rightarrow> ('v, 'r, 'p, 'g) event) \<Rightarrow> 'x list \<Rightarrow> nat list
   \<Rightarrow> ('v, 'r, 'p, 'g) event list \<times> (error + 'y list)" where
  "pool proc f ev xs sched =
     (if proc < 1 then ([], Inl (ValueError ''Number of processes must be at least 1''))
      else
        (case imap_run (\<lambda>j. f (xs ! j)) (length xs) (filter (\<lambda>j. j < length xs) sched) [] of
           (js, r) \<Rightarrow> (PoolOpen proc # map (\<lambda>j. ev (xs ! j)) js @ [PoolClose], r)))"


text \<open>
  The results of a plain loop over the tasks (the loop that lines 76 to 89 keep as a
  comment): the values in order, or the first exception.
\<close>

fun collect :: "(error + 'y) list \<Rightarrow> error + 'y list" where
  "collect [] = Inr []"
| "collect (Inl e # rs) = Inl e"
| "collect (Inr v # rs) = (case collect rs of Inl e \<Rightarrow> Inl e | Inr vs \<Rightarrow> Inr (v # vs))"

subsection \<open>\<open>pydamage_analyze\<close>\<close>

text \<open>Lines 103 to 118: the fits, grouped or one per reference, and the filter.\<close>

definition fits ::
  "('v, 'r, 'p, 'g, 'm) env \<Rightarrow> args \<Rightarrow> string list \<Rightarrow> string \<Rightarrow> int \<Rightarrow> nat list
   \<Rightarrow> ('v, 'r, 'p, 'g) event list \<times> (error + 'v pyval list)" where
  "fits E a refs mode proc sched =
     (if group a then
        and_then
          (call (TestDamage None)
             (test_damage E None (bam a) mode (wlen a) (show_al a) (process a) (verbose a)))
          (\<lambda>r. ret [r])
      else
        and_then
          (pool proc
             (\<lambda>ref. test_damage E (Some ref) (bam a) mode (wlen a) (show_al a) (process a) (verbose a))
             (\<lambda>ref. TestDamage (Some ref)) refs sched)
          (\<lambda>res. ret (filter truthy res)))"

text \<open>Lines 126 to 133: the plots, one task of a second pool for each result kept.\<close>

definition plots ::
  "('v, 'r, 'p, 'g, 'm) env \<Rightarrow> args \<Rightarrow> int \<Rightarrow> 'v pyval list \<Rightarrow> nat list
   \<Rightarrow> ('v, 'r, 'p, 'g) event list \<times> (error + unit)" where
  "plots E a proc filt_res sched =
     (if plot a \<and> length filt_res > 0 then
        and_then (emit (Print Plots)) (\<lambda>_.
        let plotdir = outdir a @ ''/plots'' in
        and_then
          (call (Makedir plotdir [(''confirm'', False)])
             (makedir E plotdir [(''confirm'', False)])) (\<lambda>_.
        and_then
          (pool proc (\<lambda>r. damageplot E r plotdir (wlen a))
             (\<lambda>r. Damageplot r plotdir (wlen a)) filt_res sched) (\<lambda>_.
        ret ())))
      else ret ())"

text \<open>Lines 134 to 142: the table, the prediction, the join and the CSV file.\<close>

definition table ::
  "('v, 'r, 'p, 'g, 'm) env \<Rightarrow> args \<Rightarrow> 'v pyval list
   \<Rightarrow> ('v, 'r, 'p, 'g) event list \<times> (error + ('g \<times> 'r) frame)" where
  "table E a filt_res =
     and_then
       (call (PandasProcessing filt_res (wlen a)) (pandas_processing E filt_res (wlen a)))
       (\<lambda>df_pydamage.
     and_then (call (PrepareData df_pydamage) (prepare_data E df_pydamage)) (\<lambda>prep_df_glm.
     and_then
       (call (GlmPredict prep_df_glm) (glm_predict E prep_df_glm (glm_model_params E)))
       (\<lambda>df_glm.
     let df = merge df_glm df_pydamage in
     and_then
       (case df_to_csv E df (outdir a) (decimals a) of
          (written, r) \<Rightarrow>
            (DfToCsv df (outdir a) (decimals a) # map (\<lambda>(t, d). ToCsv t d) written, r))
       (\<lambda>_.
     ret df))))"

text \<open>
  The whole function. \<open>sched\<close> is the schedule of the pool of the fits, \<open>sched'\<close> that of
  the pool of the plots.
\<close>

definition pydamage_analyze ::
  "('v, 'r, 'p, 'g, 'm) env \<Rightarrow> args \<Rightarrow> nat list \<Rightarrow> nat list
   \<Rightarrow> ('v, 'r, 'p, 'g) event list \<times> (error + ('g \<times> 'r) frame)" where
  "pydamage_analyze E a sched sched' =
     and_then (if verbose a then emit (Print (Version (version E))) else ret ()) (\<lambda>_.
     and_then
       (call (Makedir (outdir a) [(''force'', force a)])
          (makedir E (outdir a) [(''force'', force a)])) (\<lambda>_.
     and_then (call (PrepareBam (bam a)) (prepare_bam E (bam a))) (\<lambda>(refs, mode).
     let proc = min (int (length refs)) (process a) in
     and_then (emit (Print Estimating)) (\<lambda>_.
     and_then (fits E a refs mode proc sched) (\<lambda>filt_res.
     and_then (emit (Print (Analyzed (length filt_res)))) (\<lambda>_.
     and_then
       (if length filt_res = 0 then
          emit (Warn ''No alignments were found, check your alignment file'' ''PyDamageWarning'')
        else ret ()) (\<lambda>_.
     and_then (plots E a proc filt_res sched') (\<lambda>_.
     table E a filt_res))))))))"

subsection \<open>Reading a trace\<close>

text \<open>The events before the fits, and the warning of lines 121 to 124.\<close>

abbreviation first_events :: "('v, 'r, 'p, 'g, 'm) env \<Rightarrow> args \<Rightarrow> ('v, 'r, 'p, 'g) event list" where
  "first_events E a \<equiv>
     (if verbose a then [Print (Version (version E))] else []) @
     [Makedir (outdir a) [(''force'', force a)]]"

abbreviation warning :: "'v pyval list \<Rightarrow> ('v, 'r, 'p, 'g) event list" where
  "warning fr \<equiv>
     (if length fr = 0
      then [Warn ''No alignments were found, check your alignment file'' ''PyDamageWarning'']
      else [])"

definition is_fit :: "('v, 'r, 'p, 'g) event \<Rightarrow> bool" where
  "is_fit e = (case e of TestDamage ref \<Rightarrow> True | _ \<Rightarrow> False)"

definition is_predict :: "('v, 'r, 'p, 'g) event \<Rightarrow> bool" where
  "is_predict e = (case e of PrepareData t \<Rightarrow> True | GlmPredict p \<Rightarrow> True | _ \<Rightarrow> False)"

definition is_csv :: "('v, 'r, 'p, 'g) event \<Rightarrow> bool" where
  "is_csv e = (case e of DfToCsv t d n \<Rightarrow> True | ToCsv t d \<Rightarrow> True | _ \<Rightarrow> False)"

text \<open>The number of pools that are open at the end of a trace.\<close>

definition pool_step :: "nat \<Rightarrow> ('v, 'r, 'p, 'g) event \<Rightarrow> nat" where
  "pool_step n e = (case e of PoolOpen p \<Rightarrow> Suc n | PoolClose \<Rightarrow> n - 1 | _ \<Rightarrow> n)"

definition pools_open :: "('v, 'r, 'p, 'g) event list \<Rightarrow> nat" where
  "pools_open tr = foldl pool_step 0 tr"

subsection \<open>Collaborators as the specification describes them\<close>

text \<open>
  Modelled from the spec: \<^verbatim>\<open>utils.df_to_csv\<close> is not part of the sources. Section 6 of the
  specification, Result Table Serialization: "numeric columns may be rounded to a
  configurable decimal precision before hand-off" to the external writer. \<open>rounding\<close> is
  the rounding of a table to a number of decimals, \<open>writer\<close> the external writer.
\<close>

definition df_to_csv_spec ::
  "(int \<Rightarrow> 't \<Rightarrow> 't) \<Rightarrow> ('t \<Rightarrow> string \<Rightarrow> error + unit) \<Rightarrow> 't \<Rightarrow> string \<Rightarrow> int
   \<Rightarrow> ('t \<times> string) list \<times> (error + unit)" where
  "df_to_csv_spec rounding writer df dir n =
     ([(rounding n df, dir)], writer (rounding n df) dir)"

text \<open>
  Modelled from the spec: \<^verbatim>\<open>damage.test_damage\<close> is not part of the sources. Section 6, the
  Alignment Record Source: "given a path to an alignment file and a reference
  identifier, produces a sequence of AlignedRead records for that reference; also
  exposes the full list of reference identifiers". Section 2, the Fitter: "consumes all
  aligned reads for one reference sequence". Glossary, grouped mode: "merges all
  references into one synthetic unit before fitting". \<open>references\<close> and \<open>records\<close> are
  the two functions of the source, \<open>fitter\<close> the fit of a list of reads.
\<close>

definition reads_used ::
  "(string \<Rightarrow> string list) \<Rightarrow> (string \<Rightarrow> string \<Rightarrow> 'x list) \<Rightarrow> string \<Rightarrow> string option \<Rightarrow> 'x list" where
  "reads_used references records b ref =
     (case ref of
        Some x \<Rightarrow> records b x
      | None \<Rightarrow> concat (map (records b) (references b)))"

definition test_damage_spec ::
  "(string \<Rightarrow> string list) \<Rightarrow> (string \<Rightarrow> string \<Rightarrow> 'x list) \<Rightarrow> ('x list \<Rightarrow> int \<Rightarrow> error + 'v pyval)
   \<Rightarrow> string option \<Rightarrow> string \<Rightarrow> string \<Rightarrow> int \<Rightarrow> bool \<Rightarrow> int \<Rightarrow> bool \<Rightarrow> error + 'v pyval" where
  "test_damage_spec references records fitter ref b mode w sh pr vb =
     fitter (reads_used references records b ref) w"

text \<open>
  Modelled from the spec: \<^verbatim>\<open>utils.pandas_processing\<close> is not part of the sources. Section 2,
  the Result Row Builder: "converts fitted parameters into one fixed-schema record per
  reference". Section 3, the ResultTable: an "ordered collection of FitResult rows",
  "keyed by reference identifier"; the reference identifier is an attribute of a
  FitResult. \<open>reference\<close> is that attribute of a result, \<open>row\<close> the record built from a
  result (it may look at the whole list, for what is relative to the table).
\<close>

definition pandas_processing_spec ::
  "('v pyval \<Rightarrow> string) \<Rightarrow> ('v pyval list \<Rightarrow> 'v pyval \<Rightarrow> int \<Rightarrow> 'r) \<Rightarrow> 'v pyval list \<Rightarrow> int
   \<Rightarrow> error + 'r frame" where
  "pandas_processing_spec reference row rs w = Inr (map (\<lambda>r. (reference r, row rs r w)) rs)"

subsection \<open>A small environment to run the function on\<close>

text \<open>
  The alignment file has the references \<open>refs\<close>. The fit of the reference \<open>empty\<close> has
  no usable data (\<^verbatim>\<open>False\<close>), that of any other reference is a dictionary with its
  name, the grouped fit is \<open>g\<close>. \<^verbatim>\<open>pandas_processing\<close> is that of the specification: the
  table has one row for each result, under the first value of its dictionary. The
  prediction is the constant of the model for each row. \<^verbatim>\<open>df_to_csv\<close> is that of the
  specification, with a rounding that cuts the prediction down to a multiple of
  \<open>10 ^ (- n)\<close> for a negative number \<open>n\<close> of decimals and leaves it for the others,
  and a writer that never fails.
\<close>

definition sample_reference :: "string pyval \<Rightarrow> string" where
  "sample_reference r = (case r of PyDict ((k, x) # kvs) \<Rightarrow> x | _ \<Rightarrow> [])"

definition sample_env ::
  "string list \<Rightarrow> string pyval \<Rightarrow> (string, string, string frame, int, int) env" where
  "sample_env refs g =
     \<lparr>version = ''0.50'',
      makedir = (\<lambda>path kw. Inr ()),
      prepare_bam = (\<lambda>b. Inr (refs, ''rb'')),
      test_damage = (\<lambda>ref b m w s p v.
        case ref of
          None \<Rightarrow> Inr g
        | Some x \<Rightarrow> if x = ''empty'' then Inr (PyBool False) else Inr (PyDict [(''reference'', x)])),
      damageplot = (\<lambda>r d w. Inr ()),
      pandas_processing = pandas_processing_spec sample_reference (\<lambda>rs r w. ''row''),
      prepare_data = (\<lambda>df. Inr df),
      glm_model_params = 7,
      glm_predict = (\<lambda>p m. Inr (map (\<lambda>(k, r). (k, m)) p)),
      df_to_csv =
        df_to_csv_spec
          (\<lambda>n df.
             map (\<lambda>(k, x, r). (k, if n < 0 then x div 10 ^ nat (- n) * 10 ^ nat (- n) else x, r)) df)
          (\<lambda>df d. Inr ())\<rparr>"

text \<open>
  The same with an alignment source of two references, \<open>a\<close> with the reads \<open>r1\<close> and
  \<open>r2\<close>, \<open>b\<close> with the read \<open>r3\<close>, and a fit that lists the reads it was given.
\<close>

definition source_env :: "(string, string, string frame, int, int) env" where
  "source_env =
     (sample_env [''a'', ''b''] PyNone)
       \<lparr>test_damage :=
          test_damage_spec (\<lambda>b. [''a'', ''b''])
            (\<lambda>b ref. if ref = ''a'' then [''r1'', ''r2''] else [''r3''])
            (\<lambda>reads w. Inr (PyDict (map (Pair ''read'') reads)))\<rparr>"

text \<open>
  The environment of two references with a predictor that loses the first row of the
  table it is given.
\<close>

definition lossy_env :: "(string, string, string frame, int, int) env" where
  "lossy_env =
     (sample_env [''a'', ''b''] PyNone)
       \<lparr>glm_predict := (\<lambda>p m. Inr (map (\<lambda>(k, r). (k, m)) (tl p)))\<rparr>"

section \<open>Lemmas\<close>

subsection \<open>Sequencing\<close>

lemma and_then_Inl [simp]: "and_then (t, Inl e) f = (t, Inl e)"
  by (simp add: and_then_def)

lemma and_then_Inr [simp]: "and_then (t, Inr x) f = (t @ fst (f x), snd (f x))"
  by (simp add: and_then_def split: prod.splits)

lemma fst_and_then:
  "fst (and_then m f) = fst m @ (case snd m of Inl e \<Rightarrow> [] | Inr x \<Rightarrow> fst (f x))"
  by (cases m) (auto simp: and_then_def split: sum.splits prod.splits)

lemma snd_and_then:
  "snd (and_then m f) = (case snd m of Inl e \<Rightarrow> Inl e | Inr x \<Rightarrow> snd (f x))"
  by (cases m) (auto simp: and_then_def split: sum.splits prod.splits)

subsection \<open>The worker pool\<close>


lemma await_Some: "await task fin todo = Some r \<Longrightarrow> r = collect (map task todo)"
  by (induction todo arbitrary: r) (auto split: if_splits sum.splits option.splits)

lemma await_Inr_fin: "await task fin todo = Some (Inr vs) \<Longrightarrow> set todo \<subseteq> set fin"
  by (induction todo arbitrary: vs) (auto split: if_splits sum.splits option.splits)

lemma collect_map_Inr: "collect (map Inr vs) = Inr vs"
  by (induction vs) auto

lemma collect_Inr_D: "collect rs = Inr vs \<Longrightarrow> rs = map Inr vs"
  by (induction rs arbitrary: vs rule: collect.induct) (auto split: sum.splits)

lemma collect_Inr: "collect rs = Inr vs \<longleftrightarrow> rs = map Inr vs"
  using collect_map_Inr collect_Inr_D by blast

lemma collect_Inl: "collect rs = Inl e \<Longrightarrow> Inl e \<in> set rs"
  by (induction rs rule: collect.induct) (auto split: sum.splits)


lemma fst_imap_run_subset: "j \<in> set (fst (imap_run task n sched fin)) \<Longrightarrow> j \<in> set sched"
proof (induction sched arbitrary: fin)
  case Nil
  then show ?case by (simp split: option.splits)
next
  case (Cons k sched)
  show ?case
  proof (cases "await task fin [0..<n]")
    case None
    with Cons.prems have "j = k \<or> j \<in> set (fst (imap_run task n sched (k # fin)))"
      by (auto split: prod.splits)
    then show ?thesis using Cons.IH by auto
  next
    case (Some r)
    with Cons.prems show ?thesis by simp
  qed
qed

lemma imap_run_Inr:
  "imap_run task n sched fin = (js, Inr vs) \<Longrightarrow>
   map task [0..<n] = map Inr vs \<and> set [0..<n] \<subseteq> set js \<union> set fin"
proof (induction sched arbitrary: fin js)
  case Nil
  show ?case
  proof (cases "await task fin [0..<n]")
    case None
    with Nil show ?thesis by simp
  next
    case (Some r)
    with Nil have r: "r = Inr vs" by simp
    from await_Some [OF Some] r have "collect (map task [0..<n]) = Inr vs"
      by simp
    then have "map task [0..<n] = map Inr vs"
      by (rule collect_Inr_D)
    moreover from await_Inr_fin Some r have "set [0..<n] \<subseteq> set fin" by blast
    ultimately show ?thesis by auto
  qed
next
  case (Cons j sched)
  show ?case
  proof (cases "await task fin [0..<n]")
    case None
    obtain js' r' where run: "imap_run task n sched (j # fin) = (js', r')"
      by (cases "imap_run task n sched (j # fin)")
    with None Cons.prems have "js = j # js'" "r' = Inr vs" by auto
    with run Cons.IH [of "j # fin" js'] show ?thesis by auto
  next
    case (Some r)
    with Cons.prems have r: "r = Inr vs" by simp
    from await_Some [OF Some] r have "collect (map task [0..<n]) = Inr vs"
      by simp
    then have "map task [0..<n] = map Inr vs"
      by (rule collect_Inr_D)
    moreover from await_Inr_fin Some r have "set [0..<n] \<subseteq> set fin" by blast
    ultimately show ?thesis by auto
  qed
qed

lemma pool_small:
  "proc < 1 \<Longrightarrow> pool proc f ev xs sched = ([], Inl (ValueError ''Number of processes must be at least 1''))"
  by (simp add: pool_def)

lemma fst_pool:
  "1 \<le> proc \<Longrightarrow>
   \<exists>js. fst (pool proc f ev xs sched) = PoolOpen proc # map ev js @ [PoolClose] \<and> set js \<subseteq> set xs"
proof -
  assume p: "1 \<le> proc"
  let ?sched = "filter (\<lambda>j. j < length xs) sched"
  obtain js r where run: "imap_run (\<lambda>j. f (xs ! j)) (length xs) ?sched [] = (js, r)"
    by (cases "imap_run (\<lambda>j. f (xs ! j)) (length xs) ?sched []")
  have "j \<in> set js \<Longrightarrow> j < length xs" for j
    using fst_imap_run_subset [of j "\<lambda>j. f (xs ! j)" "length xs" ?sched "[]"] run by simp
  then have "set (map (\<lambda>j. xs ! j) js) \<subseteq> set xs" by auto
  moreover have "fst (pool proc f ev xs sched) = PoolOpen proc # map ev (map (\<lambda>j. xs ! j) js) @ [PoolClose]"
    using p run by (simp add: pool_def comp_def)
  ultimately show ?thesis by blast
qed

lemma pool_Inr:
  assumes "pool proc f ev xs sched = (tr, Inr vs)"
  shows "1 \<le> proc" and "map f xs = map Inr vs" and "\<And>x. x \<in> set xs \<Longrightarrow> ev x \<in> set tr"
proof -
  show p: "1 \<le> proc"
    using assms by (auto simp: pool_def split: if_splits)
  let ?sched = "filter (\<lambda>j. j < length xs) sched"
  obtain js where run: "imap_run (\<lambda>j. f (xs ! j)) (length xs) ?sched [] = (js, Inr vs)"
    and tr: "tr = PoolOpen proc # map (\<lambda>j. ev (xs ! j)) js @ [PoolClose]"
    using assms p by (auto simp: pool_def split: prod.splits)
  from imap_run_Inr [OF run] have m: "map (\<lambda>j. f (xs ! j)) [0..<length xs] = map Inr vs"
    and c: "set [0..<length xs] \<subseteq> set js" by auto
  have "map (\<lambda>j. f (xs ! j)) [0..<length xs] = map f xs"
    by (rule nth_equalityI) simp_all
  with m show "map f xs = map Inr vs" by simp
  fix x assume "x \<in> set xs"
  then obtain j where "j < length xs" "xs ! j = x" by (auto simp: in_set_conv_nth)
  with c have "j \<in> set js" by auto
  with \<open>xs ! j = x\<close> show "ev x \<in> set tr" unfolding tr by force
qed


lemma pool_events:
  assumes "e \<in> set (fst (pool proc f ev xs sched))"
  shows "e = PoolOpen proc \<or> e = PoolClose \<or> (\<exists>x\<in>set xs. e = ev x)"
proof (cases "1 \<le> proc")
  case True
  from fst_pool [OF True, of f ev xs sched] obtain js
    where "fst (pool proc f ev xs sched) = PoolOpen proc # map ev js @ [PoolClose]"
      and "set js \<subseteq> set xs" by blast
  with assms show ?thesis by auto
next
  case False
  then have "pool proc f ev xs sched = ([], Inl (ValueError ''Number of processes must be at least 1''))"
    by (simp add: pool_def)
  with assms show ?thesis by simp
qed

subsection \<open>The paths through the function\<close>

lemma fits_group:
  "group a \<Longrightarrow>
   fits E a refs mode proc sched =
     ([TestDamage None],
      case test_damage E None (bam a) mode (wlen a) (show_al a) (process a) (verbose a) of
        Inl e \<Rightarrow> Inl e
      | Inr r \<Rightarrow> Inr [r])"
  by (simp add: fits_def and_then_def call_def ret_def split: sum.splits)

lemma fits_single:
  "\<not> group a \<Longrightarrow>
   fits E a refs mode proc sched =
     (case pool proc
        (\<lambda>ref. test_damage E (Some ref) (bam a) mode (wlen a) (show_al a) (process a) (verbose a))
        (\<lambda>ref. TestDamage (Some ref)) refs sched of
        (t, Inl e) \<Rightarrow> (t, Inl e)
      | (t, Inr res) \<Rightarrow> (t, Inr (filter truthy res)))"
  by (simp add: fits_def and_then_def ret_def split: sum.splits prod.splits)

lemma plots_off:
  "\<not> (plot a \<and> fr \<noteq> []) \<Longrightarrow> plots E a proc fr sched = ([], Inr ())"
  by (auto simp: plots_def ret_def)

lemma plots_on:
  "plot a \<Longrightarrow> fr \<noteq> [] \<Longrightarrow>
   plots E a proc fr sched =
     (case makedir E (outdir a @ ''/plots'') [(''confirm'', False)] of
        Inl e \<Rightarrow> ([Print Plots, Makedir (outdir a @ ''/plots'') [(''confirm'', False)]], Inl e)
      | Inr u \<Rightarrow>
          (case pool proc (\<lambda>r. damageplot E r (outdir a @ ''/plots'') (wlen a))
             (\<lambda>r. Damageplot r (outdir a @ ''/plots'') (wlen a)) fr sched of
             (t, Inl e) \<Rightarrow>
               (Print Plots # Makedir (outdir a @ ''/plots'') [(''confirm'', False)] # t, Inl e)
           | (t, Inr rs) \<Rightarrow>
               (Print Plots # Makedir (outdir a @ ''/plots'') [(''confirm'', False)] # t, Inr ())))"
  by (simp add: plots_def and_then_def call_def emit_def ret_def Let_def
      split: sum.splits prod.splits)

lemma table_cases [case_names no_table no_data no_glm written]:
  fixes E :: "('v, 'r, 'p, 'g, 'm) env"
  obtains
    e where "pandas_processing E fr (wlen a) = Inl e"
      and "table E a fr = ([PandasProcessing fr (wlen a)], Inl e)"
  | T e where "pandas_processing E fr (wlen a) = Inr T"
      and "prepare_data E T = Inl e"
      and "table E a fr = ([PandasProcessing fr (wlen a), PrepareData T], Inl e)"
  | T P e where "pandas_processing E fr (wlen a) = Inr T"
      and "prepare_data E T = Inr P"
      and "glm_predict E P (glm_model_params E) = Inl e"
      and "table E a fr = ([PandasProcessing fr (wlen a), PrepareData T, GlmPredict P], Inl e)"
  | T P G ws r where "pandas_processing E fr (wlen a) = Inr T"
      and "prepare_data E T = Inr P"
      and "glm_predict E P (glm_model_params E) = Inr G"
      and "df_to_csv E (merge G T) (outdir a) (decimals a) = (ws, r)"
      and "table E a fr =
            ([PandasProcessing fr (wlen a), PrepareData T, GlmPredict P,
              DfToCsv (merge G T) (outdir a) (decimals a)] @ map (\<lambda>(t, d). ToCsv t d) ws,
             case r of Inl e \<Rightarrow> Inl e | Inr u \<Rightarrow> Inr (merge G T))"
proof (cases "pandas_processing E fr (wlen a)")
  case (Inl e)
  then have "table E a fr = ([PandasProcessing fr (wlen a)], Inl e)"
    by (simp add: table_def and_then_def call_def)
  with Inl show ?thesis using that(1) by blast
next
  case pp: (Inr T)
  show ?thesis
  proof (cases "prepare_data E T")
    case (Inl e)
    with pp have "table E a fr = ([PandasProcessing fr (wlen a), PrepareData T], Inl e)"
      by (simp add: table_def and_then_def call_def)
    with pp Inl show ?thesis using that(2) by blast
  next
    case pd: (Inr P)
    show ?thesis
    proof (cases "glm_predict E P (glm_model_params E)")
      case (Inl e)
      with pp pd have "table E a fr =
          ([PandasProcessing fr (wlen a), PrepareData T, GlmPredict P], Inl e)"
        by (simp add: table_def and_then_def call_def)
      with pp pd Inl show ?thesis using that(3) by blast
    next
      case gp: (Inr G)
      obtain ws r where w: "df_to_csv E (merge G T) (outdir a) (decimals a) = (ws, r)"
        by (cases "df_to_csv E (merge G T) (outdir a) (decimals a)")
      with pp pd gp have "table E a fr =
            ([PandasProcessing fr (wlen a), PrepareData T, GlmPredict P,
              DfToCsv (merge G T) (outdir a) (decimals a)] @ map (\<lambda>(t, d). ToCsv t d) ws,
             case r of Inl e \<Rightarrow> Inl e | Inr u \<Rightarrow> Inr (merge G T))"
        by (simp add: table_def and_then_def call_def ret_def Let_def split: sum.splits)
      with pp pd gp w show ?thesis using that(4) by blast
    qed
  qed
qed

lemma fits_events:
  assumes "fits E a refs mode proc sched = (t, r)" and "e \<in> set t"
  shows "(group a \<and> e = TestDamage None) \<or>
         (\<not> group a \<and> (e = PoolOpen proc \<or> e = PoolClose \<or> (\<exists>ref\<in>set refs. e = TestDamage (Some ref))))"
proof (cases "group a")
  case True
  with assms show ?thesis by (auto simp: fits_group)
next
  case False
  obtain t' r' where p: "pool proc
      (\<lambda>ref. test_damage E (Some ref) (bam a) mode (wlen a) (show_al a) (process a) (verbose a))
      (\<lambda>ref. TestDamage (Some ref)) refs sched = (t', r' :: error + 'a pyval list)"
    and t: "t' = t"
    using assms(1) False by (auto simp: fits_single split: prod.splits sum.splits)
  from p t assms(2) have "e \<in> set (fst (pool proc
      (\<lambda>ref. test_damage E (Some ref) (bam a) mode (wlen a) (show_al a) (process a) (verbose a))
      (\<lambda>ref. TestDamage (Some ref)) refs sched))" by simp
  from pool_events [OF this] False show ?thesis by auto
qed

lemma plots_events:
  assumes "plots E a proc fr sched = (t, r)" and "e \<in> set t"
  shows "e = Print Plots \<or> e = Makedir (outdir a @ ''/plots'') [(''confirm'', False)] \<or>
         e = PoolOpen proc \<or> e = PoolClose \<or> (\<exists>r\<in>set fr. e = Damageplot r (outdir a @ ''/plots'') (wlen a))"
proof (cases "plot a \<and> fr \<noteq> []")
  case False
  with assms show ?thesis by (auto simp: plots_off)
next
  case True
  show ?thesis
  proof (cases "makedir E (outdir a @ ''/plots'') [(''confirm'', False)]")
    case (Inl x)
    with True assms show ?thesis by (auto simp: plots_on)
  next
    case (Inr u)
    with True assms(1) obtain t' where p: "fst (pool proc (\<lambda>r. damageplot E r (outdir a @ ''/plots'') (wlen a))
      (\<lambda>r. Damageplot r (outdir a @ ''/plots'') (wlen a)) fr sched) = t'"
      and t: "t = Print Plots # Makedir (outdir a @ ''/plots'') [(''confirm'', False)] # t'"
      by (auto simp: plots_on split: prod.splits sum.splits)
    from t assms(2) have "e = Print Plots \<or> e = Makedir (outdir a @ ''/plots'') [(''confirm'', False)] \<or>
      e \<in> set t'" by auto
    with pool_events [of e proc _ _ fr sched] p show ?thesis by blast
  qed
qed

lemma table_events:
  assumes "table E a fr = (t, r)" and "e \<in> set t"
  shows "e = PandasProcessing fr (wlen a) \<or> is_predict e \<or> is_csv e"
  using assms
  by (cases rule: table_cases [of E fr a]) (auto simp: is_predict_def is_csv_def)

lemma run_cases [case_names no_dir no_bam no_fit no_plot tabled]:
  fixes E :: "('v, 'r, 'p, 'g, 'm) env"
  obtains
    e where "makedir E (outdir a) [(''force'', force a)] = Inl e"
      and "pydamage_analyze E a sched sched' = (first_events E a, Inl e)"
  | e where "makedir E (outdir a) [(''force'', force a)] = Inr ()"
      and "prepare_bam E (bam a) = Inl e"
      and "pydamage_analyze E a sched sched' = (first_events E a @ [PrepareBam (bam a)], Inl e)"
  | refs mode t e where "makedir E (outdir a) [(''force'', force a)] = Inr ()"
      and "prepare_bam E (bam a) = Inr (refs, mode)"
      and "fits E a refs mode (min (int (length refs)) (process a)) sched = (t, Inl e)"
      and "pydamage_analyze E a sched sched' =
            (first_events E a @ [PrepareBam (bam a), Print Estimating] @ t, Inl e)"
  | refs mode t fr t' e where "makedir E (outdir a) [(''force'', force a)] = Inr ()"
      and "prepare_bam E (bam a) = Inr (refs, mode)"
      and "fits E a refs mode (min (int (length refs)) (process a)) sched = (t, Inr fr)"
      and "plots E a (min (int (length refs)) (process a)) fr sched' = (t', Inl e)"
      and "pydamage_analyze E a sched sched' =
            (first_events E a @ [PrepareBam (bam a), Print Estimating] @ t @
             [Print (Analyzed (length fr))] @ warning fr @ t', Inl e)"
  | refs mode t fr t' t'' r where "makedir E (outdir a) [(''force'', force a)] = Inr ()"
      and "prepare_bam E (bam a) = Inr (refs, mode)"
      and "fits E a refs mode (min (int (length refs)) (process a)) sched = (t, Inr fr)"
      and "plots E a (min (int (length refs)) (process a)) fr sched' = (t', Inr ())"
      and "table E a fr = (t'', r)"
      and "pydamage_analyze E a sched sched' =
            (first_events E a @ [PrepareBam (bam a), Print Estimating] @ t @
             [Print (Analyzed (length fr))] @ warning fr @ t' @ t'', r)"
proof (cases "makedir E (outdir a) [(''force'', force a)]")
  case (Inl e)
  then have "pydamage_analyze E a sched sched' = (first_events E a, Inl e)"
    by (simp add: pydamage_analyze_def and_then_def call_def emit_def ret_def)
  with Inl show ?thesis using that(1) by blast
next
  case (Inr u)
  then have mk: "makedir E (outdir a) [(''force'', force a)] = Inr ()" by simp
  show ?thesis
  proof (cases "prepare_bam E (bam a)")
    case (Inl e)
    with mk have "pydamage_analyze E a sched sched' = (first_events E a @ [PrepareBam (bam a)], Inl e)"
      by (simp add: pydamage_analyze_def and_then_def call_def emit_def ret_def)
    with mk Inl show ?thesis using that(2) by blast
  next
    case (Inr rm)
    then obtain refs mode where pb: "prepare_bam E (bam a) = Inr (refs, mode)"
      by (cases rm) simp
    obtain t rf where f: "fits E a refs mode (min (int (length refs)) (process a)) sched = (t, rf)"
      by (cases "fits E a refs mode (min (int (length refs)) (process a)) sched")
    show ?thesis
    proof (cases rf)
      case (Inl e)
      with mk pb f have "pydamage_analyze E a sched sched' =
            (first_events E a @ [PrepareBam (bam a), Print Estimating] @ t, Inl e)"
        by (simp add: pydamage_analyze_def and_then_def call_def emit_def ret_def)
      with mk pb f Inl show ?thesis using that(3) by blast
    next
      case (Inr fr)
      obtain t' rp where p: "plots E a (min (int (length refs)) (process a)) fr sched' = (t', rp)"
        by (cases "plots E a (min (int (length refs)) (process a)) fr sched'")
      show ?thesis
      proof (cases rp)
        case (Inl e)
        with mk pb f Inr p have "pydamage_analyze E a sched sched' =
            (first_events E a @ [PrepareBam (bam a), Print Estimating] @ t @
             [Print (Analyzed (length fr))] @ warning fr @ t', Inl e)"
          by (simp add: pydamage_analyze_def and_then_def call_def emit_def ret_def)
        with mk pb f Inr p Inl show ?thesis using that(4) by blast
      next
        case (Inr u)
        obtain t'' r where tb: "table E a fr = (t'', r)"
          by (cases "table E a fr")
        from Inr have rp: "rp = Inr ()" by simp
        with mk pb f \<open>rf = Inr fr\<close> p tb have "pydamage_analyze E a sched sched' =
            (first_events E a @ [PrepareBam (bam a), Print Estimating] @ t @
             [Print (Analyzed (length fr))] @ warning fr @ t' @ t'', r)"
          by (simp add: pydamage_analyze_def and_then_def call_def emit_def ret_def)
        with mk pb f \<open>rf = Inr fr\<close> p rp tb show ?thesis using that(5) by blast
      qed
    qed
  qed
qed

lemma fits_Inr_group:
  assumes "group a" and "fits E a refs mode proc sched = (t, Inr fr)"
  shows "t = [TestDamage None] \<and>
         (\<exists>r. test_damage E None (bam a) mode (wlen a) (show_al a) (process a) (verbose a) = Inr r \<and>
              fr = [r])"
  using assms by (auto simp: fits_group split: sum.splits)

lemma fits_Inr_single:
  assumes "\<not> group a" and "fits E a refs mode proc sched = (t, Inr fr)"
  shows "\<exists>res.
           map (\<lambda>ref. test_damage E (Some ref) (bam a) mode (wlen a) (show_al a) (process a) (verbose a)) refs
             = map Inr res \<and>
           fr = filter truthy res \<and> (\<forall>ref\<in>set refs. TestDamage (Some ref) \<in> set t) \<and> 1 \<le> proc"
proof -
  let ?f = "\<lambda>ref. test_damage E (Some ref) (bam a) mode (wlen a) (show_al a) (process a) (verbose a)"
  obtain t' r' where p: "pool proc ?f (\<lambda>ref. TestDamage (Some ref)) refs sched
      = (t' :: ('a, 'b, 'c, 'd) event list, r')"
    by (cases "pool proc ?f (\<lambda>ref. TestDamage (Some ref)) refs sched
      :: ('a, 'b, 'c, 'd) event list \<times> _")
  with assms obtain res where r': "r' = Inr res" and fr: "fr = filter truthy res" and t: "t' = t"
    by (auto simp: fits_single split: sum.splits)
  note q = p [unfolded r' t]
  from pool_Inr(1) [OF q] pool_Inr(2) [OF q] pool_Inr(3) [OF q] fr show ?thesis by blast
qed

lemma foldl_pool_step_others:
  "(\<forall>e\<in>set t. e \<noteq> PoolClose \<and> (\<forall>p. e \<noteq> PoolOpen p)) \<Longrightarrow> foldl pool_step n t = n"
  by (induction t arbitrary: n) (auto simp: pool_step_def split: event.splits)

lemma foldl_pool_step_pool:
  assumes "\<And>x. ev x \<noteq> PoolClose \<and> (\<forall>p. ev x \<noteq> PoolOpen p)"
    and "pool proc f ev xs sched = (t, r)"
  shows "foldl pool_step n t = n"
proof (cases "1 \<le> proc")
  case True
  from fst_pool [OF True, of f ev xs sched] assms(2) obtain js
    where t: "t = PoolOpen proc # map ev js @ [PoolClose]" by auto
  have "foldl pool_step (Suc n) (map ev js) = Suc n"
    by (rule foldl_pool_step_others) (use assms(1) in auto)
  then show ?thesis unfolding t by (simp add: pool_step_def)
next
  case False
  then have "proc < 1" by simp
  from assms(2) show ?thesis by (simp add: pool_small [OF \<open>proc < 1\<close>])
qed

lemma foldl_pool_step_fits:
  assumes "fits E a refs mode proc sched = (t, r)"
  shows "foldl pool_step n t = n"
proof (cases "group a")
  case True
  with assms show ?thesis by (auto simp: fits_group pool_step_def)
next
  case False
  let ?f = "\<lambda>ref. test_damage E (Some ref) (bam a) mode (wlen a) (show_al a) (process a) (verbose a)"
  obtain t' r' where p: "pool proc ?f (\<lambda>ref. TestDamage (Some ref)) refs sched
      = (t' :: ('a, 'b, 'c, 'd) event list, r')"
    by (cases "pool proc ?f (\<lambda>ref. TestDamage (Some ref)) refs sched
      :: ('a, 'b, 'c, 'd) event list \<times> _")
  with assms False have t: "t' = t"
    by (auto simp: fits_single split: sum.splits)
  show ?thesis
    by (rule foldl_pool_step_pool [OF _ p [unfolded t]]) simp
qed

lemma foldl_pool_step_plots:
  assumes "plots E a proc fr sched = (t, r)"
  shows "foldl pool_step n t = n"
proof (cases "plot a \<and> fr \<noteq> []")
  case False
  with assms show ?thesis by (auto simp: plots_off)
next
  case True
  show ?thesis
  proof (cases "makedir E (outdir a @ ''/plots'') [(''confirm'', False)]")
    case (Inl x)
    with True assms show ?thesis by (auto simp: plots_on pool_step_def)
  next
    case (Inr u)
    obtain t' r' where p: "pool proc (\<lambda>r. damageplot E r (outdir a @ ''/plots'') (wlen a))
        (\<lambda>r. Damageplot r (outdir a @ ''/plots'') (wlen a)) fr sched
        = (t' :: ('a, 'b, 'c, 'd) event list, r')"
      by (cases "pool proc (\<lambda>r. damageplot E r (outdir a @ ''/plots'') (wlen a))
        (\<lambda>r. Damageplot r (outdir a @ ''/plots'') (wlen a)) fr sched
        :: ('a, 'b, 'c, 'd) event list \<times> _")
    with True Inr assms have t: "t = Print Plots # Makedir (outdir a @ ''/plots'') [(''confirm'', False)] # t'"
      by (auto simp: plots_on split: sum.splits)
    have "foldl pool_step n t' = n"
      by (rule foldl_pool_step_pool [OF _ p]) simp
    then show ?thesis unfolding t by (simp add: pool_step_def)
  qed
qed

lemma reads_used_union:
  "set (reads_used references records b None) =
     (\<Union>ref\<in>set (references b). set (reads_used references records b (Some ref)))"
  by (auto simp: reads_used_def)

lemma pools_open_append:
  "pools_open (xs @ ys) = foldl pool_step (pools_open xs) ys"
  by (simp add: pools_open_def)



lemma snd_case_pool:
  "snd (case p of (t, Inl e) \<Rightarrow> (t', Inl e) | (t, Inr res) \<Rightarrow> (t'', Inr (g res))) =
     (case snd p of Inl e \<Rightarrow> Inl e | Inr res \<Rightarrow> Inr (g res))"
  by (cases p) (auto split: sum.splits)



lemma snd_run:
  "snd (pydamage_analyze E a s s') =
     (case makedir E (outdir a) [(''force'', force a)] of
        Inl e \<Rightarrow> Inl e
      | Inr u \<Rightarrow>
          (case prepare_bam E (bam a) of
             Inl e \<Rightarrow> Inl e
           | Inr (refs, mode) \<Rightarrow>
               (case snd (fits E a refs mode (min (int (length refs)) (process a)) s) of
                  Inl e \<Rightarrow> Inl e
                | Inr fr \<Rightarrow>
                    (case snd (plots E a (min (int (length refs)) (process a)) fr s') of
                       Inl e \<Rightarrow> Inl e
                     | Inr u \<Rightarrow> snd (table E a fr)))))"
  by (cases rule: run_cases [of E a s s']) simp_all

lemma fits_decimals [simp]:
  "fits E (a\<lparr>decimals := d\<rparr>) refs mode proc sched = fits E a refs mode proc sched"
  by (simp add: fits_def)

lemma plots_decimals [simp]:
  "plots E (a\<lparr>decimals := d\<rparr>) proc fr sched = plots E a proc fr sched"
  by (simp add: plots_def)

lemma table_decimals:
  fixes E :: "('v, 'r, 'p, 'g, 'm) env"
  shows "\<exists>t T.
     (case T of
        Inl e \<Rightarrow> \<forall>d. table E (a\<lparr>decimals := d\<rparr>) fr = (t, Inl e)
      | Inr df \<Rightarrow>
          \<forall>d. table E (a\<lparr>decimals := d\<rparr>) fr =
                (t @ DfToCsv df (outdir a) d # map (\<lambda>(t, d). ToCsv t d) (fst (df_to_csv E df (outdir a) d)),
                 case snd (df_to_csv E df (outdir a) d) of Inl e \<Rightarrow> Inl e | Inr u \<Rightarrow> Inr df)) \<and>
     (\<forall>e\<in>set t. \<not> is_csv e)"
proof (cases rule: table_cases [of E fr a])
  case (no_table e)
  then have "\<forall>d. table E (a\<lparr>decimals := d\<rparr>) fr = ([PandasProcessing fr (wlen a)], Inl e)"
    by (simp add: table_def and_then_def call_def)
  then show ?thesis
    by (intro exI [of _ "[PandasProcessing fr (wlen a)]"] exI [of _ "Inl e"]) (simp add: is_csv_def)
next
  case (no_data T e)
  then have "\<forall>d. table E (a\<lparr>decimals := d\<rparr>) fr = ([PandasProcessing fr (wlen a), PrepareData T], Inl e)"
    by (simp add: table_def and_then_def call_def)
  then show ?thesis
    by (intro exI [of _ "[PandasProcessing fr (wlen a), PrepareData T]"] exI [of _ "Inl e"])
      (simp add: is_csv_def)
next
  case (no_glm T P e)
  then have "\<forall>d. table E (a\<lparr>decimals := d\<rparr>) fr =
      ([PandasProcessing fr (wlen a), PrepareData T, GlmPredict P], Inl e)"
    by (simp add: table_def and_then_def call_def)
  then show ?thesis
    by (intro exI [of _ "[PandasProcessing fr (wlen a), PrepareData T, GlmPredict P]"] exI [of _ "Inl e"])
      (simp add: is_csv_def)
next
  case (written T P G ws r)
  then have "\<forall>d. table E (a\<lparr>decimals := d\<rparr>) fr =
      ([PandasProcessing fr (wlen a), PrepareData T, GlmPredict P] @
       DfToCsv (merge G T) (outdir a) d #
       map (\<lambda>(t, d). ToCsv t d) (fst (df_to_csv E (merge G T) (outdir a) d)),
       case snd (df_to_csv E (merge G T) (outdir a) d) of Inl e \<Rightarrow> Inl e | Inr u \<Rightarrow> Inr (merge G T))"
    by (simp add: table_def and_then_def call_def ret_def split_def Let_def split: sum.splits)
  then show ?thesis
    by (intro exI [of _ "[PandasProcessing fr (wlen a), PrepareData T, GlmPredict P]"]
        exI [of _ "Inr (merge G T)"]) (simp add: is_csv_def)
qed

lemma run_no_dir:
  "makedir E (outdir a) [(''force'', force a)] = Inl e \<Longrightarrow>
   pydamage_analyze E a s s' = (first_events E a, Inl e)"
  by (cases rule: run_cases [of E a s s']) auto

lemma run_no_bam:
  "makedir E (outdir a) [(''force'', force a)] = Inr () \<Longrightarrow> prepare_bam E (bam a) = Inl e \<Longrightarrow>
   pydamage_analyze E a s s' = (first_events E a @ [PrepareBam (bam a)], Inl e)"
  by (cases rule: run_cases [of E a s s']) auto

lemma run_no_fit:
  "makedir E (outdir a) [(''force'', force a)] = Inr () \<Longrightarrow>
   prepare_bam E (bam a) = Inr (refs, mode) \<Longrightarrow>
   fits E a refs mode (min (int (length refs)) (process a)) s = (t, Inl e) \<Longrightarrow>
   pydamage_analyze E a s s' = (first_events E a @ [PrepareBam (bam a), Print Estimating] @ t, Inl e)"
  by (cases rule: run_cases [of E a s s']) auto

lemma run_no_plot:
  "makedir E (outdir a) [(''force'', force a)] = Inr () \<Longrightarrow>
   prepare_bam E (bam a) = Inr (refs, mode) \<Longrightarrow>
   fits E a refs mode (min (int (length refs)) (process a)) s = (t, Inr fr) \<Longrightarrow>
   plots E a (min (int (length refs)) (process a)) fr s' = (t', Inl e) \<Longrightarrow>
   pydamage_analyze E a s s' =
     (first_events E a @ [PrepareBam (bam a), Print Estimating] @ t @
      [Print (Analyzed (length fr))] @ warning fr @ t', Inl e)"
  by (cases rule: run_cases [of E a s s']) auto

lemma run_tabled:
  "makedir E (outdir a) [(''force'', force a)] = Inr () \<Longrightarrow>
   prepare_bam E (bam a) = Inr (refs, mode) \<Longrightarrow>
   fits E a refs mode (min (int (length refs)) (process a)) s = (t, Inr fr) \<Longrightarrow>
   plots E a (min (int (length refs)) (process a)) fr s' = (t', Inr ()) \<Longrightarrow>
   pydamage_analyze E a s s' =
     (first_events E a @ [PrepareBam (bam a), Print Estimating] @ t @
      [Print (Analyzed (length fr))] @ warning fr @ t' @ fst (table E a fr), snd (table E a fr))"
  by (cases rule: run_cases [of E a s s']) auto

lemma fits_not_csv:
  "fits E a refs mode proc sched = (t, r) \<Longrightarrow> e \<in> set t \<Longrightarrow> \<not> is_csv e"
  by (drule (1) fits_events) (auto simp: is_csv_def)

lemma plots_not_csv:
  "plots E a proc fr sched = (t, r) \<Longrightarrow> e \<in> set t \<Longrightarrow> \<not> is_csv e"
  by (drule (1) plots_events) (auto simp: is_csv_def)

lemma first_events_not_csv: "e \<in> set (first_events E a) \<Longrightarrow> \<not> is_csv e"
  by (auto simp: is_csv_def split: if_splits)

lemma run_decimals:
  fixes E :: "('v, 'r, 'p, 'g, 'm) env"
  shows "\<exists>t T.
     (case T of
        Inl e \<Rightarrow> \<forall>d. pydamage_analyze E (a\<lparr>decimals := d\<rparr>) s s' = (t, Inl e)
      | Inr df \<Rightarrow>
          \<forall>d. pydamage_analyze E (a\<lparr>decimals := d\<rparr>) s s' =
                (t @ DfToCsv df (outdir a) d # map (\<lambda>(t, d). ToCsv t d) (fst (df_to_csv E df (outdir a) d)),
                 case snd (df_to_csv E df (outdir a) d) of Inl e \<Rightarrow> Inl e | Inr u \<Rightarrow> Inr df)) \<and>
     (\<forall>e\<in>set t. \<not> is_csv e)"
proof (cases rule: run_cases [of E a s s'])
  case (no_dir e)
  have "\<forall>d. pydamage_analyze E (a\<lparr>decimals := d\<rparr>) s s' = (first_events E a, Inl e)"
    using no_dir(1) run_no_dir [of E "a\<lparr>decimals := d\<rparr>" e s s' for d] by simp
  then show ?thesis
    by (intro exI [of _ "first_events E a"] exI [of _ "Inl e"]) (simp add: is_csv_def)
next
  case (no_bam e)
  have "\<forall>d. pydamage_analyze E (a\<lparr>decimals := d\<rparr>) s s' = (first_events E a @ [PrepareBam (bam a)], Inl e)"
    using no_bam(1) no_bam(2) run_no_bam [of E "a\<lparr>decimals := d\<rparr>" e s s' for d] by simp
  then show ?thesis
    by (intro exI [of _ "first_events E a @ [PrepareBam (bam a)]"] exI [of _ "Inl e"])
      (simp add: is_csv_def)
next
  case (no_fit refs mode t e)
  let ?t = "first_events E a @ [PrepareBam (bam a), Print Estimating] @ t"
  have "\<forall>d. pydamage_analyze E (a\<lparr>decimals := d\<rparr>) s s' = (?t, Inl e)"
    using no_fit(1) no_fit(2) no_fit(3)
      run_no_fit [of E "a\<lparr>decimals := d\<rparr>" refs mode s t e s' for d] by simp
  moreover have "\<forall>x\<in>set ?t. \<not> is_csv x"
    using fits_not_csv [OF no_fit(3)] first_events_not_csv [where E=E and a=a]
    by (auto simp del: append.simps) (simp_all add: is_csv_def)
  ultimately show ?thesis
    by (intro exI [of _ ?t] exI [of _ "Inl e"]) simp
next
  case (no_plot refs mode t fr t' e)
  let ?t = "first_events E a @ [PrepareBam (bam a), Print Estimating] @ t @
      [Print (Analyzed (length fr))] @ warning fr @ t'"
  have "\<forall>d. pydamage_analyze E (a\<lparr>decimals := d\<rparr>) s s' = (?t, Inl e)"
    using no_plot(1) no_plot(2) no_plot(3) no_plot(4)
      run_no_plot [of E "a\<lparr>decimals := d\<rparr>" refs mode s t fr s' t' e for d] by simp
  moreover have "\<forall>x\<in>set ?t. \<not> is_csv x"
    using fits_not_csv [OF no_plot(3)] plots_not_csv [OF no_plot(4)] first_events_not_csv [where E=E and a=a]
    by (auto simp del: append.simps) (simp_all add: is_csv_def)
  ultimately show ?thesis
    by (intro exI [of _ ?t] exI [of _ "Inl e"]) simp
next
  case (tabled refs mode t fr t' t'' r)
  let ?t = "first_events E a @ [PrepareBam (bam a), Print Estimating] @ t @
      [Print (Analyzed (length fr))] @ warning fr @ t'"
  have run: "pydamage_analyze E (a\<lparr>decimals := d\<rparr>) s s' =
      (?t @ fst (table E (a\<lparr>decimals := d\<rparr>) fr), snd (table E (a\<lparr>decimals := d\<rparr>) fr))" for d
    using tabled(1) tabled(2) tabled(3) tabled(4)
      run_tabled [of E "a\<lparr>decimals := d\<rparr>" refs mode s t fr s' t'] by simp
  have pre: "\<forall>x\<in>set ?t. \<not> is_csv x"
    using fits_not_csv [OF tabled(3)] plots_not_csv [OF tabled(4)] first_events_not_csv [where E=E and a=a]
    by (auto simp del: append.simps) (simp_all add: is_csv_def)
  from table_decimals [of E a fr] obtain u T where
    tb: "case T of
        Inl e \<Rightarrow> \<forall>d. table E (a\<lparr>decimals := d\<rparr>) fr = (u, Inl e)
      | Inr df \<Rightarrow>
          \<forall>d. table E (a\<lparr>decimals := d\<rparr>) fr =
                (u @ DfToCsv df (outdir a) d # map (\<lambda>(t, d). ToCsv t d) (fst (df_to_csv E df (outdir a) d)),
                 case snd (df_to_csv E df (outdir a) d) of Inl e \<Rightarrow> Inl e | Inr u \<Rightarrow> Inr df)"
    and u: "\<forall>e\<in>set u. \<not> is_csv e" by blast
  show ?thesis
  proof (cases T)
    case (Inl e)
    with tb run have "\<forall>d. pydamage_analyze E (a\<lparr>decimals := d\<rparr>) s s' = (?t @ u, Inl e)"
      by simp
    with pre u show ?thesis
      by (intro exI [of _ "?t @ u"] exI [of _ "Inl e"]) auto
  next
    case (Inr df)
    with tb run have "\<forall>d. pydamage_analyze E (a\<lparr>decimals := d\<rparr>) s s' =
        ((?t @ u) @ DfToCsv df (outdir a) d # map (\<lambda>(t, d). ToCsv t d) (fst (df_to_csv E df (outdir a) d)),
         case snd (df_to_csv E df (outdir a) d) of Inl e \<Rightarrow> Inl e | Inr u \<Rightarrow> Inr df)"
      by simp
    with pre u show ?thesis
      by (intro exI [of _ "?t @ u"] exI [of _ "Inr df"]) auto
  qed
qed

lemma merge_Nil [simp]: "merge [] T = []"
  by (simp add: merge_def)

lemma merge_Cons [simp]:
  "merge ((k, g) # G) T =
     map (\<lambda>(k', r). (k, g, r)) (filter (\<lambda>(k', r). k' = k) T) @ merge G T"
  by (simp add: merge_def)

lemma set_merge:
  "set (merge G T) = {(k, g, r). (k, g) \<in> set G \<and> (k, r) \<in> set T}"
proof (induction G)
  case Nil
  then show ?case by simp
next
  case (Cons x G)
  obtain k g where x: "x = (k, g)" by (cases x)
  have "set (map (\<lambda>(k', r). (k, g, r)) (filter (\<lambda>(k', r). k' = k) T)) =
      {(k', g', r). k' = k \<and> g' = g \<and> (k, r) \<in> set T}"
    by force
  with Cons x show ?case by auto
qed

lemma filter_key_single:
  "distinct (map fst T) \<Longrightarrow> k \<in> fst ` set T \<Longrightarrow> \<exists>r. filter (\<lambda>(k', r). k' = k) T = [(k, r)]"
proof (induction T)
  case Nil
  then show ?case by simp
next
  case (Cons x T)
  obtain k' r' where x: "x = (k', r')" by (cases x)
  show ?case
  proof (cases "k' = k")
    case True
    with Cons.prems x have "k \<notin> fst ` set T" by auto
    then have "filter (\<lambda>(k', r). k' = k) T = []"
      by (force simp: filter_empty_conv)
    with True x show ?thesis by simp
  next
    case False
    with Cons x show ?thesis by auto
  qed
qed

lemma merge_keys:
  "distinct (map fst T) \<Longrightarrow> set (map fst G) \<subseteq> set (map fst T) \<Longrightarrow> map fst (merge G T) = map fst G"
proof (induction G)
  case Nil
  then show ?case by simp
next
  case (Cons x G)
  obtain k g where x: "x = (k, g)" by (cases x)
  with Cons.prems have "k \<in> fst ` set T" by auto
  from filter_key_single [OF Cons.prems(1) this] obtain r
    where f: "filter (\<lambda>(k', r). k' = k) T = [(k, r)]" by blast
  from Cons have "map fst (merge G T) = map fst G" by auto
  with f x show ?case by simp
qed

lemma same_keys_same_length:
  "distinct (map fst G) \<Longrightarrow> distinct (map fst T) \<Longrightarrow> set (map fst G) = set (map fst T) \<Longrightarrow>
   length G = length T"
  by (metis distinct_card length_map)

lemma kept_results:
  assumes "\<not> group a"
    and "prepare_bam E (bam a) = Inr (refs, mode)"
    and "PandasProcessing filt_res w \<in> set (fst (pydamage_analyze E a sched sched'))"
  shows "\<exists>res.
           map (\<lambda>ref. test_damage E (Some ref) (bam a) mode (wlen a) (show_al a) (process a) (verbose a)) refs
             = map Inr res \<and>
           filt_res = map snd (filter (\<lambda>(ref, v). truthy v) (zip refs res)) \<and>
           (\<forall>v\<in>set filt_res. truthy v)"
proof -
  let ?f = "\<lambda>ref. test_damage E (Some ref) (bam a) mode (wlen a) (show_al a) (process a) (verbose a)"
  have key: "\<exists>res. map ?f refs = map Inr res \<and> fr = filter truthy res"
    if "fits E a refs mode proc sched = (t, Inr fr)" for proc t fr
  proof -
    obtain t' r' where p: "pool proc ?f (\<lambda>ref. TestDamage (Some ref)) refs sched
        = (t' :: ('a, 'b, 'c, 'd) event list, r')"
      by (cases "pool proc ?f (\<lambda>ref. TestDamage (Some ref)) refs sched
        :: ('a, 'b, 'c, 'd) event list \<times> _")
    with that assms(1) obtain res where r': "r' = Inr res" and fr: "fr = filter truthy res"
      by (auto simp: fits_single split: sum.splits)
    from pool_Inr(2) [OF p [unfolded r']] fr show ?thesis by blast
  qed
  have zip: "filter truthy res = map snd (filter (\<lambda>(ref, v). truthy v) (zip refs res))"
    if "length res = length refs" for res :: "'a pyval list"
    using that
  proof (induction refs res rule: list_induct2')
    case (4 x xs y ys)
    then show ?case by auto
  qed auto
  have fin: ?thesis if "fits E a refs mode proc sched = (t, Inr filt_res)" for proc t
  proof -
    from key [OF that] obtain res where m: "map ?f refs = map Inr res"
      and fr: "filt_res = filter truthy res" by blast
    from m have "length res = length refs"
      by (metis length_map)
    from zip [OF this] fr m show ?thesis by auto
  qed
  show ?thesis
  proof (cases rule: run_cases [of E a sched sched'])
    case (no_dir e)
    with assms(3) show ?thesis by (auto split: if_splits)
  next
    case (no_bam e)
    with assms(3) show ?thesis by (auto split: if_splits)
  next
    case (no_fit refs' mode' t e)
    with assms(3) fits_events [OF no_fit(3), of "PandasProcessing filt_res w"]
    show ?thesis by (auto split: if_splits)
  next
    case (no_plot refs' mode' t fr t' e)
    with assms(3) fits_events [OF no_plot(3), of "PandasProcessing filt_res w"]
      plots_events [OF no_plot(4), of "PandasProcessing filt_res w"]
    show ?thesis by (auto split: if_splits)
  next
    case (tabled refs' mode' t fr t' t'' r)
    with assms(3) fits_events [OF tabled(3), of "PandasProcessing filt_res w"]
      plots_events [OF tabled(4), of "PandasProcessing filt_res w"]
      table_events [OF tabled(5), of "PandasProcessing filt_res w"]
    have "fr = filt_res"
      by (auto simp: is_predict_def is_csv_def split: if_splits)
    with tabled(2) tabled(3) assms(2) fin show ?thesis by auto
  qed
qed

lemma table_outcome:
  assumes "pandas_processing E fr (wlen a) = Inr T"
    and "prepare_data E T = Inr P"
    and "glm_predict E P (glm_model_params E) = Inr G"
  shows "snd (table E a fr) =
           (case snd (df_to_csv E (merge G T) (outdir a) (decimals a)) of
              Inl e \<Rightarrow> Inl e
            | Inr u \<Rightarrow> Inr (merge G T))"
  using assms by (cases rule: table_cases [of E fr a]) auto

lemma table_Inr:
  assumes "snd (table E a fr) = Inr df"
  obtains T P G where "pandas_processing E fr (wlen a) = Inr T"
    and "prepare_data E T = Inr P"
    and "glm_predict E P (glm_model_params E) = Inr G"
    and "snd (df_to_csv E (merge G T) (outdir a) (decimals a)) = Inr ()"
    and "df = merge G T"
  using assms by (cases rule: table_cases [of E fr a]) (auto split: sum.splits)

lemma run_Inr_iff:
  "snd (pydamage_analyze E a s s') = Inr df \<longleftrightarrow>
     (\<exists>refs mode fr T P G.
        makedir E (outdir a) [(''force'', force a)] = Inr () \<and>
        prepare_bam E (bam a) = Inr (refs, mode) \<and>
        snd (fits E a refs mode (min (int (length refs)) (process a)) s) = Inr fr \<and>
        snd (plots E a (min (int (length refs)) (process a)) fr s') = Inr () \<and>
        pandas_processing E fr (wlen a) = Inr T \<and>
        prepare_data E T = Inr P \<and>
        glm_predict E P (glm_model_params E) = Inr G \<and>
        snd (df_to_csv E (merge G T) (outdir a) (decimals a)) = Inr () \<and>
        df = merge G T)"
proof
  assume r: "snd (pydamage_analyze E a s s') = Inr df"
  from r obtain refs mode where m: "makedir E (outdir a) [(''force'', force a)] = Inr ()"
    and b: "prepare_bam E (bam a) = Inr (refs, mode)"
    by (auto simp: snd_run split: sum.splits)
  let ?p = "min (int (length refs)) (process a)"
  from r m b obtain fr where f: "snd (fits E a refs mode ?p s) = Inr fr"
    by (auto simp: snd_run split: sum.splits)
  from r m b f have p: "snd (plots E a ?p fr s') = Inr ()" and t: "snd (table E a fr) = Inr df"
    by (auto simp: snd_run split: sum.splits)
  from t obtain T P G where "pandas_processing E fr (wlen a) = Inr T"
    "prepare_data E T = Inr P" "glm_predict E P (glm_model_params E) = Inr G"
    "snd (df_to_csv E (merge G T) (outdir a) (decimals a)) = Inr ()" "df = merge G T"
    by (rule table_Inr)
  with m b f p show "\<exists>refs mode fr T P G.
        makedir E (outdir a) [(''force'', force a)] = Inr () \<and>
        prepare_bam E (bam a) = Inr (refs, mode) \<and>
        snd (fits E a refs mode (min (int (length refs)) (process a)) s) = Inr fr \<and>
        snd (plots E a (min (int (length refs)) (process a)) fr s') = Inr () \<and>
        pandas_processing E fr (wlen a) = Inr T \<and>
        prepare_data E T = Inr P \<and>
        glm_predict E P (glm_model_params E) = Inr G \<and>
        snd (df_to_csv E (merge G T) (outdir a) (decimals a)) = Inr () \<and>
        df = merge G T"
    by blast
next
  assume "\<exists>refs mode fr T P G.
        makedir E (outdir a) [(''force'', force a)] = Inr () \<and>
        prepare_bam E (bam a) = Inr (refs, mode) \<and>
        snd (fits E a refs mode (min (int (length refs)) (process a)) s) = Inr fr \<and>
        snd (plots E a (min (int (length refs)) (process a)) fr s') = Inr () \<and>
        pandas_processing E fr (wlen a) = Inr T \<and>
        prepare_data E T = Inr P \<and>
        glm_predict E P (glm_model_params E) = Inr G \<and>
        snd (df_to_csv E (merge G T) (outdir a) (decimals a)) = Inr () \<and>
        df = merge G T"
  then obtain refs mode fr T P G where h:
    "makedir E (outdir a) [(''force'', force a)] = Inr ()"
    "prepare_bam E (bam a) = Inr (refs, mode)"
    "snd (fits E a refs mode (min (int (length refs)) (process a)) s) = Inr fr"
    "snd (plots E a (min (int (length refs)) (process a)) fr s') = Inr ()"
    "pandas_processing E fr (wlen a) = Inr T"
    "prepare_data E T = Inr P"
    "glm_predict E P (glm_model_params E) = Inr G"
    "snd (df_to_csv E (merge G T) (outdir a) (decimals a)) = Inr ()"
    "df = merge G T" by blast
  from table_outcome [OF h(5) h(6) h(7)] h(8) h(9) have "snd (table E a fr) = Inr df"
    by simp
  with h(1) h(2) h(3) h(4) show "snd (pydamage_analyze E a s s') = Inr df"
    by (simp add: snd_run)
qed

lemma merge_labels: "fst ` set (merge G T) = fst ` set G \<inter> fst ` set T"
  by (force simp: set_merge)

lemma merge_one_to_one:
  assumes "distinct (map fst G) \<and> distinct (map fst T) \<and> set (map fst G) = set (map fst T)"
  shows "map fst (merge G T) = map fst G \<and>
         length (merge G T) = length G \<and> length (merge G T) = length T"
proof -
  from assms have k: "map fst (merge G T) = map fst G"
    by (intro merge_keys) auto
  then have l: "length (merge G T) = length G"
    by (metis length_map)
  from assms have "length G = length T"
    by (intro same_keys_same_length) auto
  with k l show ?thesis by simp
qed



lemma map_eq_Inr_nth:
  assumes "map f xs = map Inr vs" and "v \<in> set vs"
  shows "\<exists>x\<in>set xs. f x = Inr v"
proof -
  from assms(1) have l: "length xs = length vs" by (metis length_map)
  from assms(2) obtain i where i: "i < length vs" "vs ! i = v"
    by (auto simp: in_set_conv_nth)
  from assms(1) have "map f xs ! i = map Inr vs ! i" by simp
  with i l have "f (xs ! i) = Inr v" by simp
  moreover from i l have "xs ! i \<in> set xs" by simp
  ultimately show ?thesis by blast
qed

section \<open>The claims\<close>

text \<open>
  C10. In grouped mode the result of the one fit goes into the list as it is, with no
  test of its truth value: the list has length 1 also when the fit reports no usable
  data, no run in grouped mode gives the warning of lines 121 to 124, and the table is
  always built from a list of length 1.
\<close>

theorem grouped_result_unfiltered:
  assumes "group a"
  shows "fits E a refs mode proc sched =
           ([TestDamage None],
            case test_damage E None (bam a) mode (wlen a) (show_al a) (process a) (verbose a) of
              Inl e \<Rightarrow> Inl e
            | Inr r \<Rightarrow> Inr [r]) \<and>
         (\<forall>m c. Warn m c \<notin> set (fst (pydamage_analyze E a sched sched'))) \<and>
         (\<forall>fr w. PandasProcessing fr w \<in> set (fst (pydamage_analyze E a sched sched'))
            \<longrightarrow> length fr = 1)"
proof (intro conjI allI impI)
  show "fits E a refs mode proc sched =
           ([TestDamage None],
            case test_damage E None (bam a) mode (wlen a) (show_al a) (process a) (verbose a) of
              Inl e \<Rightarrow> Inl e
            | Inr r \<Rightarrow> Inr [r])"
    using assms by (rule fits_group)
next
  have len: "length fr = 1" if "fits E a refs mode proc sched = (t, Inr fr)" for refs mode proc t fr
    using that assms by (auto simp: fits_group split: sum.splits)
  fix m c
  show "Warn m c \<notin> set (fst (pydamage_analyze E a sched sched'))"
  proof (cases rule: run_cases [of E a sched sched'])
    case (no_dir e)
    then show ?thesis by auto
  next
    case (no_bam e)
    then show ?thesis by auto
  next
    case (no_fit refs mode t e)
    then show ?thesis using assms by (auto simp: fits_group)
  next
    case (no_plot refs mode t fr t' e)
    from len [OF no_plot(3)] no_plot(3) no_plot(4) no_plot(5) assms show ?thesis
      using plots_events [OF no_plot(4), of "Warn m c"]
      by (auto simp: fits_group)
  next
    case (tabled refs mode t fr t' t'' r)
    from len [OF tabled(3)] tabled(3) tabled(4) tabled(5) tabled(6) assms show ?thesis
      using plots_events [OF tabled(4), of "Warn m c"] table_events [OF tabled(5), of "Warn m c"]
      by (auto simp: fits_group is_predict_def is_csv_def)
  qed
next
  have len: "length fr = 1" if "fits E a refs mode proc sched = (t, Inr fr)" for refs mode proc t fr
    using that assms by (auto simp: fits_group split: sum.splits)
  fix fr w
  assume pp: "PandasProcessing fr w \<in> set (fst (pydamage_analyze E a sched sched'))"
  show "length fr = 1"
  proof (cases rule: run_cases [of E a sched sched'])
    case (no_dir e)
    with pp show ?thesis by (auto split: if_splits)
  next
    case (no_bam e)
    with pp show ?thesis by (auto split: if_splits)
  next
    case (no_fit refs mode t e)
    with pp assms show ?thesis by (auto simp: fits_group split: if_splits)
  next
    case (no_plot refs mode t fr' t' e)
    from pp no_plot(3) no_plot(4) no_plot(5) assms show ?thesis
      using plots_events [OF no_plot(4), of "PandasProcessing fr w"]
      by (auto simp: fits_group split: if_splits)
  next
    case (tabled refs mode t fr' t' t'' r)
    from pp len [OF tabled(3)] tabled(3) tabled(4) tabled(5) tabled(6) assms show ?thesis
      using plots_events [OF tabled(4), of "PandasProcessing fr w"]
        table_events [OF tabled(5), of "PandasProcessing fr w"]
      by (auto simp: fits_group is_predict_def is_csv_def split: if_splits)
  qed
qed

theorem grouped_result_unfiltered_witness:
  "group ((default_args ''x.bam'')\<lparr>group := True\<rparr>) \<and>
   \<not> truthy (PyBool False :: string pyval) \<and>
   fits (sample_env [''a''] (PyBool False)) ((default_args ''x.bam'')\<lparr>group := True\<rparr>)
     [''a''] ''rb'' 1 [0] = ([TestDamage None], Inr [PyBool False]) \<and>
   Warn ''No alignments were found, check your alignment file'' ''PyDamageWarning''
     \<notin> set (fst (pydamage_analyze (sample_env [''a''] (PyBool False))
         ((default_args ''x.bam'')\<lparr>group := True\<rparr>) [0] [])) \<and>
   PandasProcessing [PyBool False] 30
     \<in> set (fst (pydamage_analyze (sample_env [''a''] (PyBool False))
         ((default_args ''x.bam'')\<lparr>group := True\<rparr>) [0] [])) \<and>
   length [PyBool False :: string pyval] = 1"
proof -
  let ?a = "(default_args ''x.bam'')\<lparr>group := True\<rparr>"
  let ?E = "sample_env [''a''] (PyBool False)"
  have g: "group ?a" by (simp add: default_args_def)
  have t: "test_damage ?E None (bam ?a) ''rb'' (wlen ?a) (show_al ?a) (process ?a) (verbose ?a)
      = Inr (PyBool False)"
    by (simp add: sample_env_def)
  have r: "PandasProcessing [PyBool False] 30 \<in> set (fst (pydamage_analyze ?E ?a [0] []))"
    by code_simp
  from grouped_result_unfiltered [OF g, of ?E "[''a'']" "''rb''" 1 "[0]" "[]"] t r g
  show ?thesis by simp
qed

text \<open>
  C3. In per-reference mode the list from which the table is built holds the results of
  the fits of the references, in their order, without those whose truth value is false.
  With \<^verbatim>\<open>pandas_processing\<close> as the specification describes it, and fits whose results
  carry the identifier of their reference, every row of the table a run returns has the
  label of a reference whose fit has a true truth value: a reference whose fit reports
  no usable data has no row in the table, zero-filled or other.
\<close>

theorem falsy_results_excluded:
  assumes "\<not> group a"
    and "prepare_bam E (bam a) = Inr (refs, mode)"
  shows "(\<forall>filt_res w.
            PandasProcessing filt_res w \<in> set (fst (pydamage_analyze E a sched sched')) \<longrightarrow>
            (\<exists>res.
               map (\<lambda>ref. test_damage E (Some ref) (bam a) mode (wlen a) (show_al a) (process a) (verbose a)) refs
                 = map Inr res \<and>
               filt_res = map snd (filter (\<lambda>(ref, v). truthy v) (zip refs res)) \<and>
               (\<forall>v\<in>set filt_res. truthy v))) \<and>
         (pandas_processing E = pandas_processing_spec reference row \<and>
          (\<forall>ref\<in>set refs. \<forall>v.
             test_damage E (Some ref) (bam a) mode (wlen a) (show_al a) (process a) (verbose a) = Inr v \<and>
             truthy v \<longrightarrow> reference v = ref) \<longrightarrow>
          (\<forall>df. snd (pydamage_analyze E a sched sched') = Inr df \<longrightarrow>
             fst ` set df \<subseteq>
               {ref \<in> set refs. \<exists>v.
                  test_damage E (Some ref) (bam a) mode (wlen a) (show_al a) (process a) (verbose a) = Inr v \<and>
                  truthy v} \<and>
             (\<forall>ref v.
                test_damage E (Some ref) (bam a) mode (wlen a) (show_al a) (process a) (verbose a) = Inr v \<and>
                \<not> truthy v \<longrightarrow> ref \<notin> fst ` set df)))"
proof (intro conjI allI impI)
  fix filt_res w
  assume "PandasProcessing filt_res w \<in> set (fst (pydamage_analyze E a sched sched'))"
  with assms show "\<exists>res.
               map (\<lambda>ref. test_damage E (Some ref) (bam a) mode (wlen a) (show_al a) (process a) (verbose a)) refs
                 = map Inr res \<and>
               filt_res = map snd (filter (\<lambda>(ref, v). truthy v) (zip refs res)) \<and>
               (\<forall>v\<in>set filt_res. truthy v)"
    by (rule kept_results)
next
  let ?f = "\<lambda>ref. test_damage E (Some ref) (bam a) mode (wlen a) (show_al a) (process a) (verbose a)"
  fix df
  assume spec: "pandas_processing E = pandas_processing_spec reference row \<and>
          (\<forall>ref\<in>set refs. \<forall>v. ?f ref = Inr v \<and> truthy v \<longrightarrow> reference v = ref)"
    and ret: "snd (pydamage_analyze E a sched sched') = Inr df"
  from ret [unfolded run_Inr_iff] assms(2) obtain fr T P G where
    f: "snd (fits E a refs mode (min (int (length refs)) (process a)) sched) = Inr fr"
    and pp: "pandas_processing E fr (wlen a) = Inr T"
    and df: "df = merge G T"
    by auto
  obtain t where ft: "fits E a refs mode (min (int (length refs)) (process a)) sched = (t, Inr fr)"
    by (cases "fits E a refs mode (min (int (length refs)) (process a)) sched") (use f in auto)
  from fits_Inr_single [OF assms(1) ft] obtain res where
    m: "map ?f refs = map Inr res" and fr: "fr = filter truthy res" by blast
  from pp spec have T: "T = map (\<lambda>r. (reference r, row fr r (wlen a))) fr"
    by (simp add: pandas_processing_spec_def)
  have lab: "fst ` set df \<subseteq> reference ` set fr"
    unfolding df merge_labels T by auto
  have sub: "fst ` set df \<subseteq> {ref \<in> set refs. \<exists>v. ?f ref = Inr v \<and> truthy v}"
  proof
    fix k assume "k \<in> fst ` set df"
    with lab obtain v where v: "v \<in> set fr" "k = reference v" by auto
    with fr have tv: "truthy v" and "v \<in> set res" by auto
    from map_eq_Inr_nth [OF m this(2)] obtain ref where r: "ref \<in> set refs" "?f ref = Inr v"
      by blast
    with spec tv have "reference v = ref" by blast
    with v r tv show "k \<in> {ref \<in> set refs. \<exists>v. ?f ref = Inr v \<and> truthy v}" by auto
  qed
  then show "fst ` set df \<subseteq> {ref \<in> set refs. \<exists>v. ?f ref = Inr v \<and> truthy v}" .
  fix ref v
  assume "?f ref = Inr v \<and> \<not> truthy v"
  with sub show "ref \<notin> fst ` set df" by auto
qed

theorem falsy_results_excluded_witness:
  "\<not> group (default_args ''x.bam'') \<and>
   prepare_bam (sample_env [''a'', ''empty'', ''b''] PyNone) (bam (default_args ''x.bam''))
     = Inr ([''a'', ''empty'', ''b''], ''rb'') \<and>
   PandasProcessing [PyDict [(''reference'', ''a'')], PyDict [(''reference'', ''b'')]] 30
     \<in> set (fst (pydamage_analyze (sample_env [''a'', ''empty'', ''b''] PyNone)
           (default_args ''x.bam'') [0, 1, 2] [])) \<and>
   (\<exists>res.
      map (\<lambda>ref. test_damage (sample_env [''a'', ''empty'', ''b''] PyNone) (Some ref)
             (bam (default_args ''x.bam'')) ''rb'' (wlen (default_args ''x.bam''))
             (show_al (default_args ''x.bam'')) (process (default_args ''x.bam''))
             (verbose (default_args ''x.bam''))) [''a'', ''empty'', ''b'']
        = map Inr res \<and>
      [PyDict [(''reference'', ''a'')], PyDict [(''reference'', ''b'')]]
        = map snd (filter (\<lambda>(ref, v). truthy v) (zip [''a'', ''empty'', ''b''] res)) \<and>
      (\<forall>v\<in>set [PyDict [(''reference'', ''a'')], PyDict [(''reference'', ''b'')]]. truthy v)) \<and>
   pandas_processing (sample_env [''a'', ''empty'', ''b''] PyNone)
     = pandas_processing_spec sample_reference (\<lambda>rs r w. ''row'') \<and>
   snd (pydamage_analyze (sample_env [''a'', ''empty'', ''b''] PyNone) (default_args ''x.bam'') [0, 1, 2] [])
     = Inr [(''a'', 7, ''row''), (''b'', 7, ''row'')] \<and>
   test_damage (sample_env [''a'', ''empty'', ''b''] PyNone) (Some ''empty'')
     (bam (default_args ''x.bam'')) ''rb'' (wlen (default_args ''x.bam''))
     (show_al (default_args ''x.bam'')) (process (default_args ''x.bam''))
     (verbose (default_args ''x.bam'')) = Inr (PyBool False) \<and>
   \<not> truthy (PyBool False :: string pyval) \<and>
   ''empty'' \<notin> fst ` set [(''a'', 7 :: int, ''row''), (''b'', 7, ''row'')]"
proof -
  let ?a = "default_args ''x.bam''"
  let ?E = "sample_env [''a'', ''empty'', ''b''] PyNone"
  let ?df = "[(''a'', 7, ''row''), (''b'', 7, ''row'')] :: (int \<times> string) frame"
  let ?f = "\<lambda>ref. test_damage ?E (Some ref) (bam ?a) ''rb'' (wlen ?a) (show_al ?a) (process ?a) (verbose ?a)"
  have g: "\<not> group ?a" by (simp add: default_args_def)
  have b: "prepare_bam ?E (bam ?a) = Inr ([''a'', ''empty'', ''b''], ''rb'')"
    by (simp add: sample_env_def)
  have r: "PandasProcessing [PyDict [(''reference'', ''a'')], PyDict [(''reference'', ''b'')]] 30
     \<in> set (fst (pydamage_analyze ?E ?a [0, 1, 2] []))"
    by code_simp
  have pp: "pandas_processing ?E = pandas_processing_spec sample_reference (\<lambda>rs r w. ''row'')"
    by (simp add: sample_env_def)
  have lab: "\<forall>ref\<in>set [''a'', ''empty'', ''b'']. \<forall>v. ?f ref = Inr v \<and> truthy v \<longrightarrow> sample_reference v = ref"
    by (auto simp: sample_env_def sample_reference_def)
  have o: "snd (pydamage_analyze ?E ?a [0, 1, 2] []) = Inr ?df"
    by code_simp
  have e: "?f ''empty'' = Inr (PyBool False)"
    by (simp add: sample_env_def)
  have nt: "\<not> truthy (PyBool False :: string pyval)" by simp
  note th = falsy_results_excluded [OF g b, of "[0, 1, 2]" "[]" sample_reference "\<lambda>rs r w. ''row''"]
  from th r have ex: "\<exists>res.
      map ?f [''a'', ''empty'', ''b''] = map Inr res \<and>
      [PyDict [(''reference'', ''a'')], PyDict [(''reference'', ''b'')]]
        = map snd (filter (\<lambda>(ref, v). truthy v) (zip [''a'', ''empty'', ''b''] res)) \<and>
      (\<forall>v\<in>set [PyDict [(''reference'', ''a'')], PyDict [(''reference'', ''b'')]]. truthy v)"
    by blast
  from th pp lab o have "\<forall>ref v. ?f ref = Inr v \<and> \<not> truthy v \<longrightarrow> ref \<notin> fst ` set ?df"
    by blast
  with e nt have ab: "''empty'' \<notin> fst ` set ?df" by blast
  show ?thesis
    by (intro conjI g b r ex pp o e nt ab)
qed

text \<open>
  C5. In per-reference mode, once the directory is made and the alignment file read,
  the pool of the fits is opened with min(number of references, process) workers: the
  fits run between its opening and its closing, and every pool of the run has that
  size. When this minimum is below 1 the constructor of the pool raises and no pool
  exists.
\<close>

theorem pool_size_is_min:
  assumes "\<not> group a"
    and "makedir E (outdir a) [(''force'', force a)] = Inr ()"
    and "prepare_bam E (bam a) = Inr (refs, mode)"
  shows "(if 1 \<le> min (int (length refs)) (process a)
          then \<exists>finished rest.
                 fst (pydamage_analyze E a sched sched') =
                   first_events E a @
                   [PrepareBam (bam a), Print Estimating, PoolOpen (min (int (length refs)) (process a))] @
                   map (\<lambda>ref. TestDamage (Some ref)) finished @ [PoolClose] @ rest \<and>
                 set finished \<subseteq> set refs \<and> (\<forall>e\<in>set rest. \<not> is_fit e)
          else pydamage_analyze E a sched sched' =
                 (first_events E a @ [PrepareBam (bam a), Print Estimating],
                  Inl (ValueError ''Number of processes must be at least 1''))) \<and>
         (\<forall>n. PoolOpen n \<in> set (fst (pydamage_analyze E a sched sched'))
            \<longrightarrow> n = min (int (length refs)) (process a))"
proof -
  let ?p = "min (int (length refs)) (process a)"
  let ?f = "\<lambda>ref. test_damage E (Some ref) (bam a) mode (wlen a) (show_al a) (process a) (verbose a)"
  obtain t r where f: "fits E a refs mode ?p sched = (t, r)"
    by (cases "fits E a refs mode ?p sched")
  have small: "t = [] \<and> r = Inl (ValueError ''Number of processes must be at least 1'')" if "\<not> 1 \<le> ?p"
  proof -
    from that have "?p < 1" by linarith
    from f assms(1) show ?thesis by (simp add: fits_single pool_small [OF \<open>?p < 1\<close>])
  qed
  have big: "\<exists>finished. t = PoolOpen ?p # map (\<lambda>ref. TestDamage (Some ref)) finished @ [PoolClose] \<and>
      set finished \<subseteq> set refs" if "1 \<le> ?p"
  proof -
    from fst_pool [OF that, of ?f "\<lambda>ref. TestDamage (Some ref)" refs sched]
    obtain js where "fst (pool ?p ?f (\<lambda>ref. TestDamage (Some ref)) refs sched)
        = (PoolOpen ?p # map (\<lambda>ref. TestDamage (Some ref)) js @ [PoolClose] :: ('a, 'b, 'c, 'd) event list)"
      and "set js \<subseteq> set refs" by blast
    with f assms(1) show ?thesis
      by (auto simp: fits_single split: prod.splits sum.splits)
  qed
  have nofit: "\<not> is_fit e" if "plots E a ?p fr sched' = (t', r')" "e \<in> set t'" for fr t' r' e
    using plots_events [OF that] by (auto simp: is_fit_def)
  have nofit': "\<not> is_fit e" if "table E a fr = (t', r')" "e \<in> set t'" for fr t' r' e
    using table_events [OF that] by (auto simp: is_fit_def is_predict_def is_csv_def split: event.splits)
  have pools: "n = ?p" if "plots E a ?p fr sched' = (t', r')" "PoolOpen n \<in> set t'" for fr t' r' n
    using plots_events [OF that] by auto
  have pools': "False" if "table E a fr = (t', r')" "PoolOpen n \<in> set t'" for fr t' r' n
    using table_events [OF that] by (auto simp: is_predict_def is_csv_def)
  have pools'': "n = ?p" if "PoolOpen n \<in> set t" for n
    using fits_events [OF f that] by auto
  have shape: "\<exists>rest. pydamage_analyze E a sched sched' =
        (first_events E a @ [PrepareBam (bam a), Print Estimating] @ t @ rest,
         snd (pydamage_analyze E a sched sched')) \<and>
      (\<forall>e\<in>set rest. \<not> is_fit e) \<and> (\<forall>n. PoolOpen n \<in> set rest \<longrightarrow> n = ?p) \<and>
      (rest \<noteq> [] \<longrightarrow> (\<exists>fr. r = Inr fr)) \<and>
      (rest = [] \<longrightarrow> (\<exists>e. r = Inl e \<and> snd (pydamage_analyze E a sched sched') = Inl e))"
  proof (cases rule: run_cases [of E a sched sched'])
    case (no_dir e)
    with assms(2) show ?thesis by simp
  next
    case (no_bam e)
    with assms(3) show ?thesis by simp
  next
    case (no_fit refs' mode' t0 e)
    with assms(3) f have "t0 = t" "r = Inl e" by simp_all
    with no_fit(4) show ?thesis by simp
  next
    case (no_plot refs' mode' t0 fr t' e)
    with assms(3) f have eq: "refs' = refs" "t0 = t" "r = Inr fr" by simp_all
    let ?rest = "[Print (Analyzed (length fr))] @ warning fr @ t'"
    have "\<forall>e\<in>set ?rest. \<not> is_fit e"
      using nofit [OF no_plot(4) [unfolded eq]] by (auto simp: is_fit_def)
    moreover have "\<forall>n. PoolOpen n \<in> set ?rest \<longrightarrow> n = ?p"
      using pools [OF no_plot(4) [unfolded eq]] by (auto split: if_splits)
    moreover have "pydamage_analyze E a sched sched' =
        (first_events E a @ [PrepareBam (bam a), Print Estimating] @ t @ ?rest,
         snd (pydamage_analyze E a sched sched'))"
      using no_plot(5) eq by simp
    moreover have "?rest \<noteq> []" by simp
    ultimately show ?thesis using eq(3) by blast
  next
    case (tabled refs' mode' t0 fr t' t'' r')
    with assms(3) f have eq: "refs' = refs" "t0 = t" "r = Inr fr" by simp_all
    let ?rest = "[Print (Analyzed (length fr))] @ warning fr @ t' @ t''"
    have "\<forall>e\<in>set ?rest. \<not> is_fit e"
      using nofit [OF tabled(4) [unfolded eq]] nofit' [OF tabled(5)] by (auto simp: is_fit_def)
    moreover have "\<forall>n. PoolOpen n \<in> set ?rest \<longrightarrow> n = ?p"
      using pools [OF tabled(4) [unfolded eq]] pools' [OF tabled(5)] by (auto split: if_splits)
    moreover have "pydamage_analyze E a sched sched' =
        (first_events E a @ [PrepareBam (bam a), Print Estimating] @ t @ ?rest,
         snd (pydamage_analyze E a sched sched'))"
      using tabled(6) eq by simp
    moreover have "?rest \<noteq> []" by simp
    ultimately show ?thesis using eq(3) by blast
  qed
  then obtain rest where run: "pydamage_analyze E a sched sched' =
        (first_events E a @ [PrepareBam (bam a), Print Estimating] @ t @ rest,
         snd (pydamage_analyze E a sched sched'))"
    and nf: "\<forall>e\<in>set rest. \<not> is_fit e"
    and po: "\<forall>n. PoolOpen n \<in> set rest \<longrightarrow> n = ?p"
    and ne: "rest \<noteq> [] \<longrightarrow> (\<exists>fr. r = Inr fr)"
    and em: "rest = [] \<longrightarrow> (\<exists>e. r = Inl e \<and> snd (pydamage_analyze E a sched sched') = Inl e)"
    by blast
  have tr: "fst (pydamage_analyze E a sched sched') =
      first_events E a @ [PrepareBam (bam a), Print Estimating] @ t @ rest"
    using run by (metis fst_conv)
  have all: "\<forall>n. PoolOpen n \<in> set (fst (pydamage_analyze E a sched sched')) \<longrightarrow> n = ?p"
    unfolding tr using pools'' po by (auto split: if_splits)
  show ?thesis
  proof (cases "1 \<le> ?p")
    case True
    from big [OF True] obtain finished where d:
      "t = PoolOpen ?p # map (\<lambda>ref. TestDamage (Some ref)) finished @ [PoolClose]"
      "set finished \<subseteq> set refs" by blast
    have "fst (pydamage_analyze E a sched sched') =
        first_events E a @ [PrepareBam (bam a), Print Estimating, PoolOpen ?p] @
        map (\<lambda>ref. TestDamage (Some ref)) finished @ [PoolClose] @ rest"
      unfolding tr d(1) by simp
    with d(2) nf have "\<exists>finished rest.
        fst (pydamage_analyze E a sched sched') =
          first_events E a @ [PrepareBam (bam a), Print Estimating, PoolOpen ?p] @
          map (\<lambda>ref. TestDamage (Some ref)) finished @ [PoolClose] @ rest \<and>
        set finished \<subseteq> set refs \<and> (\<forall>e\<in>set rest. \<not> is_fit e)"
      by blast
    with True all show ?thesis by simp
  next
    case False
    from small [OF False] ne have "rest = []" by auto
    with em small [OF False] run have "pydamage_analyze E a sched sched' =
                 (first_events E a @ [PrepareBam (bam a), Print Estimating],
                  Inl (ValueError ''Number of processes must be at least 1''))"
      by simp
    with False all show ?thesis by simp
  qed
qed

theorem pool_size_is_min_witness:
  "\<not> group ((default_args ''x.bam'')\<lparr>process := 2\<rparr>) \<and>
   makedir (sample_env [''a'', ''empty'', ''b''] PyNone)
     (outdir ((default_args ''x.bam'')\<lparr>process := 2\<rparr>))
     [(''force'', force ((default_args ''x.bam'')\<lparr>process := 2\<rparr>))] = Inr () \<and>
   prepare_bam (sample_env [''a'', ''empty'', ''b''] PyNone)
     (bam ((default_args ''x.bam'')\<lparr>process := 2\<rparr>)) = Inr ([''a'', ''empty'', ''b''], ''rb'') \<and>
   min (int (length [''a'', ''empty'', ''b''])) (process ((default_args ''x.bam'')\<lparr>process := 2\<rparr>)) = 2 \<and>
   PoolOpen 2 \<in> set (fst (pydamage_analyze (sample_env [''a'', ''empty'', ''b''] PyNone)
     ((default_args ''x.bam'')\<lparr>process := 2\<rparr>) [2, 0, 1] [])) \<and>
   (\<exists>finished rest.
      fst (pydamage_analyze (sample_env [''a'', ''empty'', ''b''] PyNone)
        ((default_args ''x.bam'')\<lparr>process := 2\<rparr>) [2, 0, 1] []) =
        first_events (sample_env [''a'', ''empty'', ''b''] PyNone)
          ((default_args ''x.bam'')\<lparr>process := 2\<rparr>) @
        [PrepareBam (bam ((default_args ''x.bam'')\<lparr>process := 2\<rparr>)), Print Estimating, PoolOpen 2] @
        map (\<lambda>ref. TestDamage (Some ref)) finished @ [PoolClose] @ rest \<and>
      set finished \<subseteq> set [''a'', ''empty'', ''b''] \<and> (\<forall>e\<in>set rest. \<not> is_fit e))"
proof -
  let ?a = "(default_args ''x.bam'')\<lparr>process := 2\<rparr>"
  let ?E = "sample_env [''a'', ''empty'', ''b''] PyNone"
  have g: "\<not> group ?a" by (simp add: default_args_def)
  have m: "makedir ?E (outdir ?a) [(''force'', force ?a)] = Inr ()"
    by (simp add: sample_env_def)
  have b: "prepare_bam ?E (bam ?a) = Inr ([''a'', ''empty'', ''b''], ''rb'')"
    by (simp add: sample_env_def)
  have c: "min (int (length [''a'', ''empty'', ''b''])) (process ?a) = 2"
    by (simp add: default_args_def)
  have r: "PoolOpen 2 \<in> set (fst (pydamage_analyze ?E ?a [2, 0, 1] []))"
    by code_simp
  note th = pool_size_is_min [OF g m b, of "[2, 0, 1]" "[]", unfolded c]
  from th have ex: "\<exists>finished rest.
      fst (pydamage_analyze ?E ?a [2, 0, 1] []) =
        first_events ?E ?a @ [PrepareBam (bam ?a), Print Estimating, PoolOpen 2] @
        map (\<lambda>ref. TestDamage (Some ref)) finished @ [PoolClose] @ rest \<and>
      set finished \<subseteq> set [''a'', ''empty'', ''b''] \<and> (\<forall>e\<in>set rest. \<not> is_fit e)"
    by simp
  show ?thesis
    by (intro conjI g m b c r ex)
qed

text \<open>
  C6. In grouped mode, once the directory is made and the alignment file read, there is
  one fit in the whole run: \<^verbatim>\<open>test_damage\<close> with \<^verbatim>\<open>ref=None\<close>, called directly, before any pool
  is opened. With \<^verbatim>\<open>test_damage\<close> as the specification describes it, this fit is that of
  the reads of all the references: the union of the reads that the fits of
  per-reference mode use.
\<close>

theorem grouped_single_fit:
  assumes "group a"
    and "makedir E (outdir a) [(''force'', force a)] = Inr ()"
    and "prepare_bam E (bam a) = Inr (refs, mode)"
  shows "(\<exists>rest.
            fst (pydamage_analyze E a sched sched') =
              first_events E a @ [PrepareBam (bam a), Print Estimating, TestDamage None] @ rest \<and>
            (\<forall>e\<in>set rest. \<not> is_fit e)) \<and>
         (test_damage E = test_damage_spec references records fitter \<and> references (bam a) = refs \<longrightarrow>
            snd (fits E a refs mode (min (int (length refs)) (process a)) sched) =
              (case fitter (reads_used references records (bam a) None) (wlen a) of
                 Inl e \<Rightarrow> Inl e
               | Inr r \<Rightarrow> Inr [r]) \<and>
            set (reads_used references records (bam a) None) =
              (\<Union>ref\<in>set refs. set (reads_used references records (bam a) (Some ref))))"
proof (intro conjI impI)
  let ?p = "min (int (length refs)) (process a)"
  have nofit: "\<not> is_fit e" if "plots E a ?p fr sched' = (t', r')" "e \<in> set t'" for fr t' r' e
    using plots_events [OF that] by (auto simp: is_fit_def)
  have nofit': "\<not> is_fit e" if "table E a fr = (t', r')" "e \<in> set t'" for fr t' r' e
    using table_events [OF that] by (auto simp: is_fit_def is_predict_def is_csv_def split: event.splits)
  show "\<exists>rest.
            fst (pydamage_analyze E a sched sched') =
              first_events E a @ [PrepareBam (bam a), Print Estimating, TestDamage None] @ rest \<and>
            (\<forall>e\<in>set rest. \<not> is_fit e)"
  proof (cases rule: run_cases [of E a sched sched'])
    case (no_dir e)
    with assms(2) show ?thesis by simp
  next
    case (no_bam e)
    with assms(3) show ?thesis by simp
  next
    case (no_fit refs' mode' t e)
    with assms(1) have "t = [TestDamage None]" by (auto simp: fits_group)
    with no_fit(4) show ?thesis by simp
  next
    case (no_plot refs' mode' t fr t' e)
    with assms(3) have eq: "refs' = refs" by simp
    from no_plot(3) assms(1) have t: "t = [TestDamage None]" by (auto simp: fits_group)
    let ?rest = "[Print (Analyzed (length fr))] @ warning fr @ t'"
    have "\<forall>e\<in>set ?rest. \<not> is_fit e"
      using nofit [OF no_plot(4) [unfolded eq]] by (auto simp: is_fit_def)
    moreover have "fst (pydamage_analyze E a sched sched') =
        first_events E a @ [PrepareBam (bam a), Print Estimating, TestDamage None] @ ?rest"
      using no_plot(5) t by simp
    ultimately show ?thesis by blast
  next
    case (tabled refs' mode' t fr t' t'' r')
    with assms(3) have eq: "refs' = refs" by simp
    from tabled(3) assms(1) have t: "t = [TestDamage None]" by (auto simp: fits_group)
    let ?rest = "[Print (Analyzed (length fr))] @ warning fr @ t' @ t''"
    have "\<forall>e\<in>set ?rest. \<not> is_fit e"
      using nofit [OF tabled(4) [unfolded eq]] nofit' [OF tabled(5)] by (auto simp: is_fit_def)
    moreover have "fst (pydamage_analyze E a sched sched') =
        first_events E a @ [PrepareBam (bam a), Print Estimating, TestDamage None] @ ?rest"
      using tabled(6) t by simp
    ultimately show ?thesis by blast
  qed
next
  assume spec: "test_damage E = test_damage_spec references records fitter \<and> references (bam a) = refs"
  then show "snd (fits E a refs mode (min (int (length refs)) (process a)) sched) =
              (case fitter (reads_used references records (bam a) None) (wlen a) of
                 Inl e \<Rightarrow> Inl e
               | Inr r \<Rightarrow> Inr [r])"
    using assms(1) by (simp add: fits_group test_damage_spec_def)
  from spec show "set (reads_used references records (bam a) None) =
              (\<Union>ref\<in>set refs. set (reads_used references records (bam a) (Some ref)))"
    using reads_used_union [of references records "bam a"] by simp
qed

theorem grouped_single_fit_witness:
  "group ((default_args ''x.bam'')\<lparr>group := True\<rparr>) \<and>
   makedir source_env (outdir ((default_args ''x.bam'')\<lparr>group := True\<rparr>))
     [(''force'', force ((default_args ''x.bam'')\<lparr>group := True\<rparr>))] = Inr () \<and>
   prepare_bam source_env (bam ((default_args ''x.bam'')\<lparr>group := True\<rparr>)) = Inr ([''a'', ''b''], ''rb'') \<and>
   test_damage source_env =
     test_damage_spec (\<lambda>b. [''a'', ''b'']) (\<lambda>b ref. if ref = ''a'' then [''r1'', ''r2''] else [''r3''])
       (\<lambda>reads w. Inr (PyDict (map (Pair ''read'') reads))) \<and>
   (\<exists>rest.
      fst (pydamage_analyze source_env ((default_args ''x.bam'')\<lparr>group := True\<rparr>) [] []) =
        first_events source_env ((default_args ''x.bam'')\<lparr>group := True\<rparr>) @
        [PrepareBam (bam ((default_args ''x.bam'')\<lparr>group := True\<rparr>)), Print Estimating, TestDamage None] @ rest \<and>
      (\<forall>e\<in>set rest. \<not> is_fit e)) \<and>
   snd (fits source_env ((default_args ''x.bam'')\<lparr>group := True\<rparr>) [''a'', ''b''] ''rb''
       (min (int (length [''a'', ''b''])) (process ((default_args ''x.bam'')\<lparr>group := True\<rparr>))) []) =
     Inr [PyDict [(''read'', ''r1''), (''read'', ''r2''), (''read'', ''r3'')]] \<and>
   set (reads_used (\<lambda>b. [''a'', ''b'']) (\<lambda>b ref. if ref = ''a'' then [''r1'', ''r2''] else [''r3''])
       (bam ((default_args ''x.bam'')\<lparr>group := True\<rparr>)) None) = {''r1'', ''r2'', ''r3''}"
proof -
  let ?a = "(default_args ''x.bam'')\<lparr>group := True\<rparr>"
  let ?refs = "\<lambda>b :: string. [''a'', ''b'']"
  let ?recs = "\<lambda>(b :: string) ref. if ref = ''a'' then [''r1'', ''r2''] else [''r3'']"
  let ?fit = "\<lambda>reads (w :: int). Inr (PyDict (map (Pair ''read'') reads)) :: error + string pyval"
  have g: "group ?a" by (simp add: default_args_def)
  have m: "makedir source_env (outdir ?a) [(''force'', force ?a)] = Inr ()"
    by (simp add: source_env_def sample_env_def)
  have b: "prepare_bam source_env (bam ?a) = Inr ([''a'', ''b''], ''rb'')"
    by (simp add: source_env_def sample_env_def)
  have s: "test_damage source_env = test_damage_spec ?refs ?recs ?fit"
    by (simp add: source_env_def sample_env_def)
  have u: "reads_used ?refs ?recs (bam ?a) None = [''r1'', ''r2'', ''r3'']"
    by (simp add: reads_used_def)
  note th = grouped_single_fit [OF g m b, of "[]" "[]" ?refs ?recs ?fit]
  from th have ex: "\<exists>rest.
      fst (pydamage_analyze source_env ?a [] []) =
        first_events source_env ?a @ [PrepareBam (bam ?a), Print Estimating, TestDamage None] @ rest \<and>
      (\<forall>e\<in>set rest. \<not> is_fit e)"
    by (rule conjunct1)
  from th s have sp: "snd (fits source_env ?a [''a'', ''b''] ''rb''
       (min (int (length [''a'', ''b''])) (process ?a)) []) =
     (case ?fit (reads_used ?refs ?recs (bam ?a) None) (wlen ?a) of Inl e \<Rightarrow> Inl e | Inr r \<Rightarrow> Inr [r])"
    by simp
  have f: "snd (fits source_env ?a [''a'', ''b''] ''rb''
       (min (int (length [''a'', ''b''])) (process ?a)) []) =
     Inr [PyDict [(''read'', ''r1''), (''read'', ''r2''), (''read'', ''r3'')]]"
    unfolding sp u by simp
  have v: "set (reads_used ?refs ?recs (bam ?a) None) = {''r1'', ''r2'', ''r3''}"
    unfolding u by simp
  show ?thesis
    by (intro conjI g m b s ex f v)
qed

text \<open>
  C9. A run that returns a table has called the predictor. In every run that calls the
  predictor, \<^verbatim>\<open>prepare_data\<close> is called once, on the table that \<^verbatim>\<open>pandas_processing\<close> made
  from the whole list of results, and \<^verbatim>\<open>glm_predict\<close> at most once, right after it, on
  what \<^verbatim>\<open>prepare_data\<close> returned (once when the run returns a table). Before the call no
  pool is open, every reference has had its fit (the grouped fit in grouped mode) and
  the results of all the fits are in the list; after it there is no fit.
\<close>

theorem prediction_after_all_fits:
  assumes "pydamage_analyze E a sched sched' = (tr, out)"
  shows "(\<forall>df. out = Inr df \<longrightarrow> (\<exists>e\<in>set tr. is_predict e)) \<and>
         ((\<exists>e\<in>set tr. is_predict e) \<longrightarrow>
          (\<exists>before fr T after refs mode.
             tr = before @ [PandasProcessing fr (wlen a), PrepareData T] @ after \<and>
             pandas_processing E fr (wlen a) = Inr T \<and>
             (\<forall>e\<in>set before. \<not> is_predict e) \<and>
             pools_open before = 0 \<and>
             prepare_bam E (bam a) = Inr (refs, mode) \<and>
             (if group a
              then TestDamage None \<in> set before \<and>
                   (\<exists>r. test_damage E None (bam a) mode (wlen a) (show_al a) (process a) (verbose a) = Inr r \<and>
                        fr = [r])
              else \<exists>res.
                     map (\<lambda>ref. test_damage E (Some ref) (bam a) mode (wlen a) (show_al a) (process a) (verbose a)) refs
                       = map Inr res \<and>
                     fr = filter truthy res \<and>
                     (\<forall>ref\<in>set refs. TestDamage (Some ref) \<in> set before)) \<and>
             (\<forall>e\<in>set after. \<not> is_fit e) \<and>
             ((after = [] \<and> (\<exists>e. prepare_data E T = Inl e \<and> out = Inl e)) \<or>
              (\<exists>P csv.
                 prepare_data E T = Inr P \<and> after = GlmPredict P # csv \<and> (\<forall>e\<in>set csv. is_csv e) \<and>
                 (\<forall>df. out = Inr df \<longrightarrow>
                    (\<exists>G. glm_predict E P (glm_model_params E) = Inr G \<and> df = merge G T))))))"
proof -
  have nopred: "\<not> is_predict e" if "fits E a refs mode proc sched = (t, r)" "e \<in> set t"
    for refs mode proc t r e
    using fits_events [OF that] by (auto simp: is_predict_def)
  have nopred': "\<not> is_predict e" if "plots E a proc fr sched' = (t, r)" "e \<in> set t"
    for proc fr t r e
    using plots_events [OF that] by (auto simp: is_predict_def)
  have nopred0: "\<forall>e\<in>set (first_events E a). \<not> is_predict e"
    by (auto simp: is_predict_def)
  show ?thesis
  proof (cases rule: run_cases [of E a sched sched'])
    case (no_dir e)
    with assms nopred0 show ?thesis by auto
  next
    case (no_bam e)
    with assms nopred0 show ?thesis by (auto simp: is_predict_def)
  next
    case (no_fit refs mode t e)
    with assms nopred0 nopred [OF no_fit(3)] show ?thesis by (auto simp: is_predict_def)
  next
    case (no_plot refs mode t fr t' e)
    with assms nopred0 nopred [OF no_plot(3)] nopred' [OF no_plot(4)] show ?thesis
      by (auto simp: is_predict_def)
  next
    case (tabled refs mode t fr t' t'' r)
    let ?before = "first_events E a @ [PrepareBam (bam a), Print Estimating] @ t @
             [Print (Analyzed (length fr))] @ warning fr @ t'"
    have tr: "tr = ?before @ t''" and out: "out = r"
      using assms tabled(6) by simp_all
    have b1: "\<forall>e\<in>set ?before. \<not> is_predict e"
      using nopred0 nopred [OF tabled(3)] nopred' [OF tabled(4)] by (auto simp: is_predict_def)
    have b2: "pools_open ?before = 0"
      by (simp add: pools_open_append foldl_pool_step_fits [OF tabled(3)]
          foldl_pool_step_plots [OF tabled(4)] pool_step_def)
        (simp add: pools_open_def pool_step_def)
    have b3: "if group a
              then TestDamage None \<in> set ?before \<and>
                   (\<exists>r. test_damage E None (bam a) mode (wlen a) (show_al a) (process a) (verbose a) = Inr r \<and>
                        fr = [r])
              else \<exists>res.
                     map (\<lambda>ref. test_damage E (Some ref) (bam a) mode (wlen a) (show_al a) (process a) (verbose a)) refs
                       = map Inr res \<and>
                     fr = filter truthy res \<and>
                     (\<forall>ref\<in>set refs. TestDamage (Some ref) \<in> set ?before)"
    proof (cases "group a")
      case True
      from fits_Inr_group [OF True tabled(3)] True show ?thesis by auto
    next
      case False
      from fits_Inr_single [OF False tabled(3)] False show ?thesis by auto
    qed
    have build: ?thesis
      if "t'' = [PandasProcessing fr (wlen a), PrepareData T] @ after"
        and "pandas_processing E fr (wlen a) = Inr T"
        and "\<forall>e\<in>set after. \<not> is_fit e"
        and "(after = [] \<and> (\<exists>e. prepare_data E T = Inl e \<and> out = Inl e)) \<or>
              (\<exists>P csv.
                 prepare_data E T = Inr P \<and> after = GlmPredict P # csv \<and> (\<forall>e\<in>set csv. is_csv e) \<and>
                 (\<forall>df. out = Inr df \<longrightarrow>
                    (\<exists>G. glm_predict E P (glm_model_params E) = Inr G \<and> df = merge G T)))"
      for T after
    proof -
      have "tr = ?before @ [PandasProcessing fr (wlen a), PrepareData T] @ after"
        unfolding tr that(1) by simp
      with that(2) that(3) that(4) b1 b2 b3 tabled(2) have "\<exists>before fr' T after refs mode.
             tr = before @ [PandasProcessing fr' (wlen a), PrepareData T] @ after \<and>
             pandas_processing E fr' (wlen a) = Inr T \<and>
             (\<forall>e\<in>set before. \<not> is_predict e) \<and>
             pools_open before = 0 \<and>
             prepare_bam E (bam a) = Inr (refs, mode) \<and>
             (if group a
              then TestDamage None \<in> set before \<and>
                   (\<exists>r. test_damage E None (bam a) mode (wlen a) (show_al a) (process a) (verbose a) = Inr r \<and>
                        fr' = [r])
              else \<exists>res.
                     map (\<lambda>ref. test_damage E (Some ref) (bam a) mode (wlen a) (show_al a) (process a) (verbose a)) refs
                       = map Inr res \<and>
                     fr' = filter truthy res \<and>
                     (\<forall>ref\<in>set refs. TestDamage (Some ref) \<in> set before)) \<and>
             (\<forall>e\<in>set after. \<not> is_fit e) \<and>
             ((after = [] \<and> (\<exists>e. prepare_data E T = Inl e \<and> out = Inl e)) \<or>
              (\<exists>P csv.
                 prepare_data E T = Inr P \<and> after = GlmPredict P # csv \<and> (\<forall>e\<in>set csv. is_csv e) \<and>
                 (\<forall>df. out = Inr df \<longrightarrow>
                    (\<exists>G. glm_predict E P (glm_model_params E) = Inr G \<and> df = merge G T))))"
        by blast
      moreover have "\<exists>e\<in>set tr. is_predict e"
        unfolding tr that(1) by (simp add: is_predict_def)
      ultimately show ?thesis by blast
    qed
    show ?thesis
    proof (cases rule: table_cases [of E fr a])
      case (no_table e)
      with tabled(5) b1 have "\<forall>e\<in>set tr. \<not> is_predict e" "out = Inl e"
        unfolding tr out by (auto simp: is_predict_def)
      then show ?thesis by auto
    next
      case (no_data T e)
      with tabled(5) have t'': "t'' = [PandasProcessing fr (wlen a), PrepareData T] @ []"
        and r: "r = Inl e" by simp_all
      show ?thesis
        by (rule build [OF t'' no_data(1)]) (use no_data(2) r out in simp_all)
    next
      case (no_glm T P e)
      with tabled(5) have t'': "t'' = [PandasProcessing fr (wlen a), PrepareData T] @ [GlmPredict P]"
        and r: "r = Inl e" by simp_all
      show ?thesis
        by (rule build [OF t'' no_glm(1)]) (use no_glm(2) r out in \<open>simp_all add: is_fit_def\<close>)
    next
      case (written T P G ws r')
      let ?csv = "DfToCsv (merge G T) (outdir a) (decimals a) # map (\<lambda>(t, d). ToCsv t d) ws"
      from written tabled(5) have t'': "t'' = [PandasProcessing fr (wlen a), PrepareData T] @ (GlmPredict P # ?csv)"
        and r: "r = (case r' of Inl e \<Rightarrow> Inl e | Inr u \<Rightarrow> Inr (merge G T))" by simp_all
      have c: "\<forall>e\<in>set ?csv. is_csv e" by (auto simp: is_csv_def)
      have f: "\<forall>e\<in>set (GlmPredict P # ?csv). \<not> is_fit e" by (auto simp: is_fit_def)
      have o: "\<forall>df. out = Inr df \<longrightarrow> (\<exists>G. glm_predict E P (glm_model_params E) = Inr G \<and> df = merge G T)"
        using r out written(3) by (auto split: sum.splits)
      show ?thesis
        by (rule build [OF t'' written(1) f]) (use written(2) c o in blast)
    qed
  qed
qed

theorem prediction_after_all_fits_witness:
  "snd (pydamage_analyze (sample_env [''a'', ''empty'', ''b''] PyNone)
          ((default_args ''x.bam'')\<lparr>process := 2\<rparr>) [2, 0, 1] []) =
     Inr [(''a'', 7, ''row''), (''b'', 7, ''row'')] \<and>
   (\<exists>e\<in>set (fst (pydamage_analyze (sample_env [''a'', ''empty'', ''b''] PyNone)
          ((default_args ''x.bam'')\<lparr>process := 2\<rparr>) [2, 0, 1] [])). is_predict e) \<and>
   (\<exists>before fr T after refs mode.
      fst (pydamage_analyze (sample_env [''a'', ''empty'', ''b''] PyNone)
          ((default_args ''x.bam'')\<lparr>process := 2\<rparr>) [2, 0, 1] []) =
        before @ [PandasProcessing fr 30, PrepareData T] @ after \<and>
      pandas_processing (sample_env [''a'', ''empty'', ''b''] PyNone) fr 30 = Inr T \<and>
      (\<forall>e\<in>set before. \<not> is_predict e) \<and>
      pools_open before = 0 \<and>
      prepare_bam (sample_env [''a'', ''empty'', ''b''] PyNone) ''x.bam'' = Inr (refs, mode) \<and>
      (\<forall>ref\<in>set refs. TestDamage (Some ref) \<in> set before) \<and>
      (\<forall>e\<in>set after. \<not> is_fit e))"
proof -
  let ?a = "(default_args ''x.bam'')\<lparr>process := 2\<rparr>"
  let ?E = "sample_env [''a'', ''empty'', ''b''] PyNone"
  let ?run = "pydamage_analyze ?E ?a [2, 0, 1] []"
  have r: "?run = (fst ?run, snd ?run)" by simp
  have o: "snd ?run = Inr [(''a'', 7, ''row''), (''b'', 7, ''row'')]"
    by code_simp
  have w: "wlen ?a = 30" "bam ?a = ''x.bam''" "group ?a = False" by (simp_all add: default_args_def)
  from prediction_after_all_fits [OF r] o have p: "\<exists>e\<in>set (fst ?run). is_predict e"
    by blast
  with prediction_after_all_fits [OF r] have "\<exists>before fr T after refs mode.
      fst ?run = before @ [PandasProcessing fr (wlen ?a), PrepareData T] @ after \<and>
      pandas_processing ?E fr (wlen ?a) = Inr T \<and>
      (\<forall>e\<in>set before. \<not> is_predict e) \<and>
      pools_open before = 0 \<and>
      prepare_bam ?E (bam ?a) = Inr (refs, mode) \<and>
      (if group ?a
       then TestDamage None \<in> set before \<and>
            (\<exists>r. test_damage ?E None (bam ?a) mode (wlen ?a) (show_al ?a) (process ?a) (verbose ?a) = Inr r \<and>
                 fr = [r])
       else \<exists>res.
              map (\<lambda>ref. test_damage ?E (Some ref) (bam ?a) mode (wlen ?a) (show_al ?a) (process ?a) (verbose ?a)) refs
                = map Inr res \<and>
              fr = filter truthy res \<and>
              (\<forall>ref\<in>set refs. TestDamage (Some ref) \<in> set before)) \<and>
      (\<forall>e\<in>set after. \<not> is_fit e)"
    by blast
  then have "\<exists>before fr T after refs mode.
      fst ?run = before @ [PandasProcessing fr 30, PrepareData T] @ after \<and>
      pandas_processing ?E fr 30 = Inr T \<and>
      (\<forall>e\<in>set before. \<not> is_predict e) \<and>
      pools_open before = 0 \<and>
      prepare_bam ?E ''x.bam'' = Inr (refs, mode) \<and>
      (\<forall>ref\<in>set refs. TestDamage (Some ref) \<in> set before) \<and>
      (\<forall>e\<in>set after. \<not> is_fit e)"
    unfolding w if_False by blast
  with o p show ?thesis by (intro conjI)
qed




text \<open>
  C2. Two runs that differ in \<^verbatim>\<open>decimals\<close> only: when both return, they return the same
  data frame; their traces are the same but for the events of \<^verbatim>\<open>df_to_csv\<close>; and
  \<^verbatim>\<open>df_to_csv\<close> is called with the same frame and directory in both, each with its own
  \<^verbatim>\<open>decimals\<close>.
\<close>

theorem decimals_reach_only_df_to_csv:
  fixes E :: "('v, 'r, 'p, 'g, 'm) env"
  shows "(\<forall>df df'.
            snd (pydamage_analyze E (a\<lparr>decimals := d\<rparr>) s s') = Inr df \<and>
            snd (pydamage_analyze E (a\<lparr>decimals := d'\<rparr>) s s') = Inr df' \<longrightarrow> df = df') \<and>
         filter (\<lambda>e. \<not> is_csv e) (fst (pydamage_analyze E (a\<lparr>decimals := d\<rparr>) s s')) =
         filter (\<lambda>e. \<not> is_csv e) (fst (pydamage_analyze E (a\<lparr>decimals := d'\<rparr>) s s')) \<and>
         (\<forall>df dir n.
            DfToCsv df dir n \<in> set (fst (pydamage_analyze E (a\<lparr>decimals := d\<rparr>) s s')) \<longrightarrow>
            n = d \<and> DfToCsv df dir d' \<in> set (fst (pydamage_analyze E (a\<lparr>decimals := d'\<rparr>) s s')))"
proof -
  from run_decimals [of E a s s'] obtain t T where
    run: "case T of
        Inl e \<Rightarrow> \<forall>d. pydamage_analyze E (a\<lparr>decimals := d\<rparr>) s s' = (t, Inl e)
      | Inr df \<Rightarrow>
          \<forall>d. pydamage_analyze E (a\<lparr>decimals := d\<rparr>) s s' =
                (t @ DfToCsv df (outdir a) d # map (\<lambda>(t, d). ToCsv t d) (fst (df_to_csv E df (outdir a) d)),
                 case snd (df_to_csv E df (outdir a) d) of Inl e \<Rightarrow> Inl e | Inr u \<Rightarrow> Inr df)"
    and t: "\<forall>e\<in>set t. \<not> is_csv e" by blast
  have keep: "filter (\<lambda>e. \<not> is_csv e) t = t"
    using t by (simp add: filter_id_conv)
  have drop: "filter (\<lambda>e. \<not> is_csv e) (map (\<lambda>(t, d). ToCsv t d) ws) = []"
    for ws :: "(('g \<times> 'r) frame \<times> string) list"
    by (induction ws) (auto simp: is_csv_def)
  have notin: "DfToCsv df dir n \<notin> set t" for df dir n
    using t by (auto simp: is_csv_def)
  have notin': "DfToCsv df dir n \<notin> set (map (\<lambda>(t, d). ToCsv t d) ws)"
    for df dir n and ws :: "(('g \<times> 'r) frame \<times> string) list"
    by auto
  show ?thesis
  proof (cases T)
    case (Inl e)
    with run notin show ?thesis by simp
  next
    case (Inr df)
    with run have r: "pydamage_analyze E (a\<lparr>decimals := d\<rparr>) s s' =
                (t @ DfToCsv df (outdir a) d # map (\<lambda>(t, d). ToCsv t d) (fst (df_to_csv E df (outdir a) d)),
                 case snd (df_to_csv E df (outdir a) d) of Inl e \<Rightarrow> Inl e | Inr u \<Rightarrow> Inr df)" for d
      by simp
    have c: "is_csv (DfToCsv df dir n :: ('v, 'r, 'p, 'g) event)" for dir n
      by (simp add: is_csv_def)
    show ?thesis
      unfolding r using notin notin'
      by (auto simp: keep drop c split: sum.splits)
  qed
qed

theorem decimals_reach_only_df_to_csv_witness:
  "snd (pydamage_analyze (sample_env [''a'', ''empty'', ''b''] PyNone)
       ((default_args ''x.bam'')\<lparr>decimals := - 1\<rparr>) [0, 1, 2] []) = Inr [(''a'', 7, ''row''), (''b'', 7, ''row'')] \<and>
   snd (pydamage_analyze (sample_env [''a'', ''empty'', ''b''] PyNone)
       ((default_args ''x.bam'')\<lparr>decimals := 2\<rparr>) [0, 1, 2] []) = Inr [(''a'', 7, ''row''), (''b'', 7, ''row'')] \<and>
   ToCsv [(''a'', 0, ''row''), (''b'', 0, ''row'')] []
     \<in> set (fst (pydamage_analyze (sample_env [''a'', ''empty'', ''b''] PyNone)
       ((default_args ''x.bam'')\<lparr>decimals := - 1\<rparr>) [0, 1, 2] [])) \<and>
   ToCsv [(''a'', 7, ''row''), (''b'', 7, ''row'')] []
     \<in> set (fst (pydamage_analyze (sample_env [''a'', ''empty'', ''b''] PyNone)
       ((default_args ''x.bam'')\<lparr>decimals := 2\<rparr>) [0, 1, 2] [])) \<and>
   filter (\<lambda>e. \<not> is_csv e) (fst (pydamage_analyze (sample_env [''a'', ''empty'', ''b''] PyNone)
       ((default_args ''x.bam'')\<lparr>decimals := - 1\<rparr>) [0, 1, 2] [])) =
   filter (\<lambda>e. \<not> is_csv e) (fst (pydamage_analyze (sample_env [''a'', ''empty'', ''b''] PyNone)
       ((default_args ''x.bam'')\<lparr>decimals := 2\<rparr>) [0, 1, 2] [])) \<and>
   DfToCsv [(''a'', 7, ''row''), (''b'', 7, ''row'')] [] (- 1)
     \<in> set (fst (pydamage_analyze (sample_env [''a'', ''empty'', ''b''] PyNone)
       ((default_args ''x.bam'')\<lparr>decimals := - 1\<rparr>) [0, 1, 2] [])) \<and>
   DfToCsv [(''a'', 7, ''row''), (''b'', 7, ''row'')] [] 2
     \<in> set (fst (pydamage_analyze (sample_env [''a'', ''empty'', ''b''] PyNone)
       ((default_args ''x.bam'')\<lparr>decimals := 2\<rparr>) [0, 1, 2] []))"
proof -
  let ?E = "sample_env [''a'', ''empty'', ''b''] PyNone"
  let ?a = "default_args ''x.bam''"
  let ?df = "[(''a'', 7, ''row''), (''b'', 7, ''row'')] :: (int \<times> string) frame"
  have o1: "snd (pydamage_analyze ?E (?a\<lparr>decimals := - 1\<rparr>) [0, 1, 2] []) = Inr ?df"
    by code_simp
  have o2: "snd (pydamage_analyze ?E (?a\<lparr>decimals := 2\<rparr>) [0, 1, 2] []) = Inr ?df"
    by code_simp
  have w1: "ToCsv [(''a'', 0, ''row''), (''b'', 0, ''row'')] []
     \<in> set (fst (pydamage_analyze ?E (?a\<lparr>decimals := - 1\<rparr>) [0, 1, 2] []))"
    by code_simp
  have w2: "ToCsv [(''a'', 7, ''row''), (''b'', 7, ''row'')] []
     \<in> set (fst (pydamage_analyze ?E (?a\<lparr>decimals := 2\<rparr>) [0, 1, 2] []))"
    by code_simp
  have c1: "DfToCsv ?df [] (- 1) \<in> set (fst (pydamage_analyze ?E (?a\<lparr>decimals := - 1\<rparr>) [0, 1, 2] []))"
    by code_simp
  note th = decimals_reach_only_df_to_csv
    [where E = ?E and a = ?a and d = "- 1" and d' = 2 and s = "[0, 1, 2]" and s' = "[]"]
  from th have f: "filter (\<lambda>e. \<not> is_csv e) (fst (pydamage_analyze ?E (?a\<lparr>decimals := - 1\<rparr>) [0, 1, 2] [])) =
      filter (\<lambda>e. \<not> is_csv e) (fst (pydamage_analyze ?E (?a\<lparr>decimals := 2\<rparr>) [0, 1, 2] []))"
    by blast
  from th c1 have c2: "DfToCsv ?df [] 2 \<in> set (fst (pydamage_analyze ?E (?a\<lparr>decimals := 2\<rparr>) [0, 1, 2] []))"
    by blast
  show ?thesis
    by (intro conjI o1 o2 w1 w2 f c1 c2)
qed

text \<open>
  C1. With \<^verbatim>\<open>df_to_csv\<close> as the specification describes it: \<^verbatim>\<open>pydamage_analyze\<close> passes the
  merged table, the directory and the caller's \<^verbatim>\<open>decimals\<close> to \<^verbatim>\<open>df_to_csv\<close> as its last
  step, so in every run that returns, the one table handed to the external writer is
  the returned table rounded to \<^verbatim>\<open>decimals\<close>, and no other table is ever handed to the
  writer. The default of \<^verbatim>\<open>decimals\<close> is -1.
\<close>

theorem csv_rounded_to_decimals:
  fixes E :: "('v, 'r, 'p, 'g, 'm) env"
  assumes "df_to_csv E = df_to_csv_spec rounding writer"
  shows "(\<forall>df. snd (pydamage_analyze E a s s') = Inr df \<longrightarrow>
            (\<exists>t. fst (pydamage_analyze E a s s') =
                   t @ [DfToCsv df (outdir a) (decimals a), ToCsv (rounding (decimals a) df) (outdir a)] \<and>
                 (\<forall>e\<in>set t. \<not> is_csv e)) \<and>
            writer (rounding (decimals a) df) (outdir a) = Inr ()) \<and>
         (\<forall>x dir. ToCsv x dir \<in> set (fst (pydamage_analyze E a s s')) \<longrightarrow>
            dir = outdir a \<and>
            (\<exists>df. x = rounding (decimals a) df \<and>
                  DfToCsv df (outdir a) (decimals a) \<in> set (fst (pydamage_analyze E a s s')))) \<and>
         decimals (default_args b) = - 1"
proof -
  from run_decimals [of E a s s'] obtain t T where
    run: "case T of
        Inl e \<Rightarrow> \<forall>d. pydamage_analyze E (a\<lparr>decimals := d\<rparr>) s s' = (t, Inl e)
      | Inr df \<Rightarrow>
          \<forall>d. pydamage_analyze E (a\<lparr>decimals := d\<rparr>) s s' =
                (t @ DfToCsv df (outdir a) d # map (\<lambda>(t, d). ToCsv t d) (fst (df_to_csv E df (outdir a) d)),
                 case snd (df_to_csv E df (outdir a) d) of Inl e \<Rightarrow> Inl e | Inr u \<Rightarrow> Inr df)"
    and t: "\<forall>e\<in>set t. \<not> is_csv e" by blast
  have a: "a\<lparr>decimals := decimals a\<rparr> = a" by simp
  have notin: "ToCsv x dir \<notin> set t" for x dir
    using t by (auto simp: is_csv_def)
  have d: "decimals (default_args b) = - 1"
    by (simp add: default_args_def)
  show ?thesis
  proof (cases T)
    case (Inl e)
    with run have "\<forall>d. pydamage_analyze E (a\<lparr>decimals := d\<rparr>) s s' = (t, Inl e)"
      by simp
    from this [rule_format, of "decimals a"] have "pydamage_analyze E a s s' = (t, Inl e)"
      by simp
    with notin d show ?thesis by simp
  next
    case (Inr df)
    with run have "\<forall>d. pydamage_analyze E (a\<lparr>decimals := d\<rparr>) s s' =
        (t @ DfToCsv df (outdir a) d #
           map (\<lambda>(t, d). ToCsv t d) (fst (df_to_csv E df (outdir a) d)),
         case snd (df_to_csv E df (outdir a) d) of Inl e \<Rightarrow> Inl e | Inr u \<Rightarrow> Inr df)"
      by simp
    from this [rule_format, of "decimals a"] have r: "pydamage_analyze E a s s' =
        (t @ [DfToCsv df (outdir a) (decimals a), ToCsv (rounding (decimals a) df) (outdir a)],
         case writer (rounding (decimals a) df) (outdir a) of Inl e \<Rightarrow> Inl e | Inr u \<Rightarrow> Inr df)"
      by (simp add: assms df_to_csv_spec_def)
    show ?thesis
      unfolding r using t notin d by (auto split: sum.splits)
  qed
qed

theorem csv_rounded_to_decimals_witness:
  "df_to_csv (sample_env [''a'', ''empty'', ''b''] PyNone) =
     df_to_csv_spec
       (\<lambda>n df. map (\<lambda>(k, x, r). (k, if n < 0 then x div 10 ^ nat (- n) * 10 ^ nat (- n) else x, r)) df)
       (\<lambda>df d. Inr ()) \<and>
   snd (pydamage_analyze (sample_env [''a'', ''empty'', ''b''] PyNone) (default_args ''x.bam'') [0, 1, 2] [])
     = Inr [(''a'', 7, ''row''), (''b'', 7, ''row'')] \<and>
   decimals (default_args ''x.bam'') = - 1 \<and>
   (\<exists>t. fst (pydamage_analyze (sample_env [''a'', ''empty'', ''b''] PyNone) (default_args ''x.bam'') [0, 1, 2] []) =
        t @ [DfToCsv [(''a'', 7, ''row''), (''b'', 7, ''row'')] [] (- 1),
             ToCsv [(''a'', 0, ''row''), (''b'', 0, ''row'')] []] \<and>
        (\<forall>e\<in>set t. \<not> is_csv e))"
proof -
  let ?E = "sample_env [''a'', ''empty'', ''b''] PyNone"
  let ?a = "default_args ''x.bam''"
  let ?rounding = "\<lambda>(n :: int) (df :: (int \<times> string) frame).
      map (\<lambda>(k, x, r). (k, if n < 0 then x div 10 ^ nat (- n) * 10 ^ nat (- n) else x, r)) df"
  let ?df = "[(''a'', 7, ''row''), (''b'', 7, ''row'')] :: (int \<times> string) frame"
  have e: "df_to_csv ?E = df_to_csv_spec ?rounding (\<lambda>df d. Inr ())"
    by (simp add: sample_env_def)
  have o: "snd (pydamage_analyze ?E ?a [0, 1, 2] []) = Inr ?df"
    by code_simp
  have d: "decimals ?a = - 1" "outdir ?a = []"
    by (simp_all add: default_args_def)
  have rd: "?rounding (- 1) ?df = [(''a'', 0, ''row''), (''b'', 0, ''row'')]"
    by simp
  from csv_rounded_to_decimals [OF e, of ?a "[0, 1, 2]" "[]"] o
  have "\<exists>t. fst (pydamage_analyze ?E ?a [0, 1, 2] []) =
          t @ [DfToCsv ?df (outdir ?a) (decimals ?a), ToCsv (?rounding (decimals ?a) ?df) (outdir ?a)] \<and>
        (\<forall>e\<in>set t. \<not> is_csv e)"
    by blast
  then have x: "\<exists>t. fst (pydamage_analyze ?E ?a [0, 1, 2] []) =
        t @ [DfToCsv ?df [] (- 1), ToCsv [(''a'', 0, ''row''), (''b'', 0, ''row'')] []] \<and>
        (\<forall>e\<in>set t. \<not> is_csv e)"
    unfolding d rd .
  show ?thesis
    by (intro conjI e o d(1) x)
qed

text \<open>
  C7, as the claim states it, fails: nothing in \<^verbatim>\<open>pydamage_analyze\<close> compares the two
  frames. With a predictor that returns one row for a table of two, the run returns
  normally, with the one row that has a partner; the other row is left out.
\<close>

theorem row_mismatch_not_fatal:
  "pandas_processing lossy_env [PyDict [(''reference'', ''a'')], PyDict [(''reference'', ''b'')]] 30
     = Inr [(''a'', ''row''), (''b'', ''row'')] \<and>
   prepare_data lossy_env [(''a'', ''row''), (''b'', ''row'')] = Inr [(''a'', ''row''), (''b'', ''row'')] \<and>
   glm_predict lossy_env [(''a'', ''row''), (''b'', ''row'')] (glm_model_params lossy_env)
     = Inr [(''b'', 7)] \<and>
   pydamage_analyze lossy_env (default_args ''x.bam'') [0, 1] [] =
     ([Makedir [] [(''force'', False)], PrepareBam ''x.bam'', Print Estimating,
       PoolOpen 1, TestDamage (Some ''a''), TestDamage (Some ''b''), PoolClose,
       Print (Analyzed 2),
       PandasProcessing [PyDict [(''reference'', ''a'')], PyDict [(''reference'', ''b'')]] 30,
       PrepareData [(''a'', ''row''), (''b'', ''row'')],
       GlmPredict [(''a'', ''row''), (''b'', ''row'')],
       DfToCsv [(''b'', 7, ''row'')] [] (- 1), ToCsv [(''b'', 0, ''row'')] []],
      Inr [(''b'', 7, ''row'')])"
  by code_simp

text \<open>
  C7, amended. A run returns a table exactly when no collaborator and no pool raises,
  and the table is then the inner join on the index of the frame of the predictor with
  the frame of the fits, whatever the numbers of their rows: nothing compares the two
  frames. The rows of the join are the pairs of a row of each with the same label, so
  a row whose label the other frame lacks is left out. When the two frames have the
  same labels, each once, the join is one to one and loses nothing: it has the labels
  of the predictor's frame in their order and as many rows as either frame.
\<close>

theorem table_is_inner_join:
  "(snd (pydamage_analyze E a s s') = Inr df \<longleftrightarrow>
     (\<exists>refs mode fr T P G.
        makedir E (outdir a) [(''force'', force a)] = Inr () \<and>
        prepare_bam E (bam a) = Inr (refs, mode) \<and>
        snd (fits E a refs mode (min (int (length refs)) (process a)) s) = Inr fr \<and>
        snd (plots E a (min (int (length refs)) (process a)) fr s') = Inr () \<and>
        pandas_processing E fr (wlen a) = Inr T \<and>
        prepare_data E T = Inr P \<and>
        glm_predict E P (glm_model_params E) = Inr G \<and>
        snd (df_to_csv E (merge G T) (outdir a) (decimals a)) = Inr () \<and>
        df = merge G T)) \<and>
   (\<forall>G T.
      set (merge G T) = {(k, g, r). (k, g) \<in> set G \<and> (k, r) \<in> set T} \<and>
      fst ` set (merge G T) = fst ` set G \<inter> fst ` set T \<and>
      (distinct (map fst G) \<and> distinct (map fst T) \<and> set (map fst G) = set (map fst T) \<longrightarrow>
         map fst (merge G T) = map fst G \<and>
         length (merge G T) = length G \<and> length (merge G T) = length T))"
proof (rule conjI)
  show "snd (pydamage_analyze E a s s') = Inr df \<longleftrightarrow>
     (\<exists>refs mode fr T P G.
        makedir E (outdir a) [(''force'', force a)] = Inr () \<and>
        prepare_bam E (bam a) = Inr (refs, mode) \<and>
        snd (fits E a refs mode (min (int (length refs)) (process a)) s) = Inr fr \<and>
        snd (plots E a (min (int (length refs)) (process a)) fr s') = Inr () \<and>
        pandas_processing E fr (wlen a) = Inr T \<and>
        prepare_data E T = Inr P \<and>
        glm_predict E P (glm_model_params E) = Inr G \<and>
        snd (df_to_csv E (merge G T) (outdir a) (decimals a)) = Inr () \<and>
        df = merge G T)"
    by (rule run_Inr_iff)
next
  show "\<forall>G T.
      set (merge G T) = {(k, g, r). (k, g) \<in> set G \<and> (k, r) \<in> set T} \<and>
      fst ` set (merge G T) = fst ` set G \<inter> fst ` set T \<and>
      (distinct (map fst G) \<and> distinct (map fst T) \<and> set (map fst G) = set (map fst T) \<longrightarrow>
         map fst (merge G T) = map fst G \<and>
         length (merge G T) = length G \<and> length (merge G T) = length T)"
  proof (intro allI conjI impI)
    fix G T
    show "set (merge G T) = {(k, g, r). (k, g) \<in> set G \<and> (k, r) \<in> set T}"
      by (rule set_merge)
    show "fst ` set (merge G T) = fst ` set G \<inter> fst ` set T"
      by (rule merge_labels)
    assume h: "distinct (map fst G) \<and> distinct (map fst T) \<and> set (map fst G) = set (map fst T)"
    from merge_one_to_one [OF h] show "map fst (merge G T) = map fst G"
      and "length (merge G T) = length G" and "length (merge G T) = length T"
      by simp_all
  qed
qed

theorem table_is_inner_join_witness:
  "makedir (sample_env [''a'', ''empty'', ''b''] PyNone) (outdir (default_args ''x.bam''))
     [(''force'', force (default_args ''x.bam''))] = Inr () \<and>
   prepare_bam (sample_env [''a'', ''empty'', ''b''] PyNone) (bam (default_args ''x.bam''))
     = Inr ([''a'', ''empty'', ''b''], ''rb'') \<and>
   pandas_processing (sample_env [''a'', ''empty'', ''b''] PyNone)
     [PyDict [(''reference'', ''a'')], PyDict [(''reference'', ''b'')]] (wlen (default_args ''x.bam''))
     = Inr [(''a'', ''row''), (''b'', ''row'')] \<and>
   glm_predict (sample_env [''a'', ''empty'', ''b''] PyNone) [(''a'', ''row''), (''b'', ''row'')]
     (glm_model_params (sample_env [''a'', ''empty'', ''b''] PyNone)) = Inr [(''a'', 7), (''b'', 7)] \<and>
   snd (pydamage_analyze (sample_env [''a'', ''empty'', ''b''] PyNone) (default_args ''x.bam'') [0, 1, 2] [])
     = Inr (merge [(''a'', 7), (''b'', 7)] [(''a'', ''row''), (''b'', ''row'')]) \<and>
   merge [(''a'', 7 :: int), (''b'', 7)] [(''a'', ''row''), (''b'', ''row'')]
     = [(''a'', 7, ''row''), (''b'', 7, ''row'')] \<and>
   distinct (map fst [(''a'', 7 :: int), (''b'', 7)]) \<and>
   distinct (map fst [(''a'', ''row''), (''b'', ''row'')]) \<and>
   set (map fst [(''a'', 7 :: int), (''b'', 7)]) = set (map fst [(''a'', ''row''), (''b'', ''row'')]) \<and>
   map fst (merge [(''a'', 7 :: int), (''b'', 7)] [(''a'', ''row''), (''b'', ''row'')])
     = map fst [(''a'', 7 :: int), (''b'', 7)] \<and>
   length (merge [(''a'', 7 :: int), (''b'', 7)] [(''a'', ''row''), (''b'', ''row'')])
     = length [(''a'', ''row''), (''b'', ''row'')]"
proof -
  let ?E = "sample_env [''a'', ''empty'', ''b''] PyNone"
  let ?a = "default_args ''x.bam''"
  let ?refs = "[''a'', ''empty'', ''b'']"
  let ?G = "[(''a'', 7), (''b'', 7)] :: int frame"
  let ?T = "[(''a'', ''row''), (''b'', ''row'')] :: string frame"
  let ?fr = "[PyDict [(''reference'', ''a'')], PyDict [(''reference'', ''b'')]] :: string pyval list"
  have m: "makedir ?E (outdir ?a) [(''force'', force ?a)] = Inr ()"
    by (simp add: sample_env_def)
  have b: "prepare_bam ?E (bam ?a) = Inr (?refs, ''rb'')"
    by (simp add: sample_env_def)
  have f: "snd (fits ?E ?a ?refs ''rb'' (min (int (length ?refs)) (process ?a)) [0, 1, 2]) = Inr ?fr"
    by code_simp
  have p: "snd (plots ?E ?a (min (int (length ?refs)) (process ?a)) ?fr []) = Inr ()"
    by code_simp
  have pp: "pandas_processing ?E ?fr (wlen ?a) = Inr ?T"
    by (simp add: sample_env_def pandas_processing_spec_def sample_reference_def)
  have pd: "prepare_data ?E ?T = Inr ?T" by (simp add: sample_env_def)
  have gp: "glm_predict ?E ?T (glm_model_params ?E) = Inr ?G" by (simp add: sample_env_def)
  have w: "snd (df_to_csv ?E (merge ?G ?T) (outdir ?a) (decimals ?a)) = Inr ()"
    by (simp add: sample_env_def df_to_csv_spec_def)
  have d1: "distinct (map fst ?G)" and d2: "distinct (map fst ?T)"
    and ks: "set (map fst ?G) = set (map fst ?T)" by simp_all
  have e: "merge ?G ?T = [(''a'', 7, ''row''), (''b'', 7, ''row'')]"
    by (simp add: merge_def)
  note th = table_is_inner_join
    [where E = ?E and a = ?a and s = "[0, 1, 2]" and s' = "[]" and df = "merge ?G ?T"]
  from th m b f p pp pd gp w have o: "snd (pydamage_analyze ?E ?a [0, 1, 2] []) = Inr (merge ?G ?T)"
    by blast
  from th have "distinct (map fst ?G) \<and> distinct (map fst ?T) \<and> set (map fst ?G) = set (map fst ?T) \<longrightarrow>
      map fst (merge ?G ?T) = map fst ?G \<and>
      length (merge ?G ?T) = length ?G \<and> length (merge ?G ?T) = length ?T"
    by blast
  with d1 d2 ks have k: "map fst (merge ?G ?T) = map fst ?G"
    and l: "length (merge ?G ?T) = length ?T" by blast+
  show ?thesis
    by (intro conjI m b pp gp o e d1 d2 ks k l)
qed

text \<open>
  C4. An alignment file with no reference, in per-reference mode with the default
  arguments: \<^verbatim>\<open>proc\<close> is \<^verbatim>\<open>min(0, 1) = 0\<close>, the constructor of the pool raises \<^verbatim>\<open>ValueError\<close>, and
  the run ends there, before the warning of lines 121 to 124 and with no table.
\<close>

theorem no_references_aborts_before_warning:
  "prepare_bam (sample_env [] PyNone) (bam (default_args ''x.bam'')) = Inr ([], ''rb'') \<and>
   group (default_args ''x.bam'') = False \<and>
   pydamage_analyze (sample_env [] PyNone) (default_args ''x.bam'') [] [] =
     ([Makedir [] [(''force'', False)], PrepareBam ''x.bam'', Print Estimating],
      Inl (ValueError ''Number of processes must be at least 1''))"
  by code_simp

text \<open>
  For comparison, two references whose fits both report no usable data: the pool has
  one worker, the list of results is empty, the warning is given once and the run goes
  on to build and return the table of no rows.
\<close>

lemma all_fits_empty_warns_once:
  "pydamage_analyze (sample_env [''empty'', ''empty''] PyNone) (default_args ''x.bam'') [0, 1] [] =
     ([Makedir [] [(''force'', False)], PrepareBam ''x.bam'', Print Estimating,
       PoolOpen 1, TestDamage (Some ''empty''), TestDamage (Some ''empty''), PoolClose,
       Print (Analyzed 0),
       Warn ''No alignments were found, check your alignment file'' ''PyDamageWarning'',
       PandasProcessing [] 30, PrepareData [], GlmPredict [],
       DfToCsv [] [] (- 1), ToCsv [] []],
      Inr [])"
  by code_simp

end
